theory Spec2Isabelle
  imports Main "HOL-Library.AList" "HOL-Library.Multiset"
begin

section \<open>The EmojiCompat font script (createfont.py), embedded in HOL\<close>

text \<open>
  The script is Python 2. Its integers are unbounded (\<open>int\<close>), its strings are byte
  strings (\<open>string\<close>), its dictionaries are association lists with one pair for a key:
  \<open>map_of\<close> looks a key up, \<open>AList.update\<close> stores a value (in place for a key that is
  there, at the end for a new one). An association list is read in list order; the
  iteration order of a Python 2 dictionary is some fixed order, and no statement below
  depends on which.
  Every \<open>raise\<close> of the script and of the library calls it makes is a value \<open>Inl e\<close>.
\<close>

subsection \<open>Errors\<close>

datatype error =
    ValueError_literal string      \<comment> \<open>\<open>int(s, base)\<close> on a string that is no literal\<close>
  | ValueError_unpack              \<comment> \<open>tuple unpacking of a list of the wrong length\<close>
  | ValueError_cmap12              \<comment> \<open>raised by \<open>read_and_clear_cmap12\<close>\<close>
  | KeyError string                \<comment> \<open>dictionary or font-table lookup of a missing key\<close>
  | IndexError                     \<comment> \<open>\<open>row[i]\<close> beyond the end of a row\<close>
  | AttributeError                 \<comment> \<open>a GSUB subtable without \<open>ligatures\<close>\<close>

subsection \<open>Constants of the script\<close>

definition EMOJI_STYLE_EXCEPTIONS :: "int list" where
  "EMOJI_STYLE_EXCEPTIONS = [0x2600, 0x2601, 0x260e, 0x261d, 0x263a, 0x2660,
                             0x2663, 0x2665, 0x2666, 0x270c, 0x2744, 0x2764]"

definition DEFAULT_EMOJI_ID :: int where
  "DEFAULT_EMOJI_ID = 0xF0001"

definition EMOJI_STYLE_VS :: int where
  "EMOJI_STYLE_VS = 0xFE0F"

definition SDK_VERSION :: int where
  "SDK_VERSION = 25"

definition METADATA_VERSION :: int where
  "METADATA_VERSION = 1"

subsection \<open>The string and number operations of Python the script calls\<close>

text \<open>The digits of \<open>n\<close> in base \<open>b\<close>, most significant first.\<close>

function nat_digits :: "nat \<Rightarrow> nat \<Rightarrow> nat list" where
  "nat_digits b n = (if n < b \<or> b < 2 then [n] else nat_digits b (n div b) @ [n mod b])"
  by pat_completeness auto
termination
  by (relation "measure (\<lambda>(b, n). n)") auto

declare nat_digits.simps [simp del]

definition upper_digit :: "nat \<Rightarrow> char" where
  "upper_digit d = ''0123456789ABCDEF'' ! d"

definition lower_digit :: "nat \<Rightarrow> char" where
  "lower_digit d = ''0123456789abcdef'' ! d"

definition digit_val :: "char \<Rightarrow> nat option" where
  "digit_val c =
     (let n = (of_char c :: nat)
      in if 48 \<le> n \<and> n \<le> 57 then Some (n - 48)
         else if 97 \<le> n \<and> n \<le> 102 then Some (n - 87)
         else if 65 \<le> n \<and> n \<le> 70 then Some (n - 55)
         else None)"

text \<open>\<open>format(value, 'X')\<close>: upper-case hexadecimal, no prefix, \<open>-\<close> for a negative value.\<close>

definition to_hex :: "int \<Rightarrow> string" where
  "to_hex v =
     (if v < 0 then CHR ''-'' # map upper_digit (nat_digits 16 (nat (- v)))
      else map upper_digit (nat_digits 16 (nat v)))"

text \<open>
  \<open>hex(x)\<close>: lower-case hexadecimal after \<open>0x\<close>. (Python 2 appends \<open>L\<close> to a value
  beyond the machine word; code points and ids are far below.)
\<close>

definition py_hex :: "int \<Rightarrow> string" where
  "py_hex v =
     (if v < 0 then ''-0x'' @ map lower_digit (nat_digits 16 (nat (- v)))
      else ''0x'' @ map lower_digit (nat_digits 16 (nat v)))"

text \<open>\<open>str(n)\<close> of an integer, as \<open>csv.writer\<close> writes a field that is a number.\<close>

definition py_str :: "int \<Rightarrow> string" where
  "py_str v =
     (if v < 0 then CHR ''-'' # map upper_digit (nat_digits 10 (nat (- v)))
      else map upper_digit (nat_digits 10 (nat v)))"

definition is_space :: "char \<Rightarrow> bool" where
  "is_space c = (c \<in> set [CHR '' '', CHR 0x09, CHR 0x0A, CHR 0x0B, CHR 0x0C, CHR 0x0D])"

definition py_strip :: "string \<Rightarrow> string" where
  "py_strip s = rev (dropWhile is_space (rev (dropWhile is_space s)))"

definition upper_char :: "char \<Rightarrow> char" where
  "upper_char c =
     (case map_of (zip ''abcdefghijklmnopqrstuvwxyz'' ''ABCDEFGHIJKLMNOPQRSTUVWXYZ'') c of
        Some u \<Rightarrow> u
      | None \<Rightarrow> c)"

definition py_upper :: "string \<Rightarrow> string" where
  "py_upper s = map upper_char s"

text \<open>\<open>s.split(c)\<close> for a separator of one character: never an empty list.\<close>

fun split_char :: "char \<Rightarrow> string \<Rightarrow> string list" where
  "split_char sep [] = [[]]"
| "split_char sep (c # cs) =
     (if c = sep then [] # split_char sep cs
      else (case split_char sep cs of p # ps \<Rightarrow> (c # p) # ps | [] \<Rightarrow> [[c]]))"

text \<open>\<open>s.split('..')\<close>: the separators are found from the left, without overlap.\<close>

fun split_dotdot :: "string \<Rightarrow> string list" where
  "split_dotdot [] = [[]]"
| "split_dotdot [c] = [[c]]"
| "split_dotdot (c # d # cs) =
     (if c = CHR ''.'' \<and> d = CHR ''.'' then [] # split_dotdot cs
      else (case split_dotdot (d # cs) of p # ps \<Rightarrow> (c # p) # ps | [] \<Rightarrow> [[c]]))"

text \<open>\<open>'..' in s\<close>.\<close>

fun contains_dotdot :: "string \<Rightarrow> bool" where
  "contains_dotdot (c # d # cs) = ((c = CHR ''.'' \<and> d = CHR ''.'') \<or> contains_dotdot (d # cs))"
| "contains_dotdot _ = False"

text \<open>\<open>' '.join(parts)\<close>.\<close>

fun join_space :: "string list \<Rightarrow> string" where
  "join_space [] = []"
| "join_space [p] = p"
| "join_space (p # q # ps) = p @ CHR '' '' # join_space (q # ps)"

fun parse_digits :: "nat \<Rightarrow> nat \<Rightarrow> string \<Rightarrow> nat option" where
  "parse_digits b acc [] = Some acc"
| "parse_digits b acc (c # cs) =
     (case digit_val c of
        None \<Rightarrow> None
      | Some d \<Rightarrow> if d < b then parse_digits b (acc * b + d) cs else None)"

text \<open>
  \<open>int(s, base)\<close> for base 10 and 16: surrounding whitespace is dropped, a sign may
  come first, base 16 accepts a \<open>0x\<close> prefix, and at least one digit must follow;
  anything else raises \<open>ValueError\<close>.
\<close>

definition py_int :: "nat \<Rightarrow> string \<Rightarrow> error + int" where
  "py_int base s =
     (let t = py_strip s;
          neg = (take 1 t = ''-'');
          u = (if take 1 t = ''-'' \<or> take 1 t = ''+'' then drop 1 t else t);
          d = (if base = 16 \<and> (take 2 u = ''0x'' \<or> take 2 u = ''0X'') then drop 2 u else u)
      in if d = [] then Inl (ValueError_literal s)
         else (case parse_digits base 0 d of
                 None \<Rightarrow> Inl (ValueError_literal s)
               | Some n \<Rightarrow> Inr (if neg then - int n else int n)))"

text \<open>Running a fallible step over a list stops at the first error, as a raise does.\<close>

fun fold_err :: "('a \<Rightarrow> 's \<Rightarrow> error + 's) \<Rightarrow> 'a list \<Rightarrow> 's \<Rightarrow> error + 's" where
  "fold_err f [] s = Inr s"
| "fold_err f (x # xs) s = (case f x s of Inl e \<Rightarrow> Inl e | Inr s' \<Rightarrow> fold_err f xs s')"

fun map_err :: "('a \<Rightarrow> error + 'b) \<Rightarrow> 'a list \<Rightarrow> error + 'b list" where
  "map_err f [] = Inr []"
| "map_err f (x # xs) =
     (case f x of
        Inl e \<Rightarrow> Inl e
      | Inr y \<Rightarrow> (case map_err f xs of Inl e \<Rightarrow> Inl e | Inr ys \<Rightarrow> Inr (y # ys)))"

subsection \<open>Helpers of the script\<close>

definition hex_str_to_int :: "string \<Rightarrow> error + int" where
  "hex_str_to_int string = py_int 16 string"

definition codepoint_to_string :: "int list \<Rightarrow> string" where
  "codepoint_to_string codepoints = join_space (map py_hex codepoints)"

subsection \<open>\<open>_EmojiData\<close>\<close>

record metrics =
  m_width :: int
  m_height :: int

record EmojiData =
  codepoints :: "int list"
  emoji_style :: bool
  emoji_id :: int
  width :: int
  height :: int
  sdk_added :: int
  compat_added :: int

text \<open>\<open>_EmojiData.__init__\<close>\<close>

definition new_EmojiData :: "int list \<Rightarrow> bool \<Rightarrow> EmojiData" where
  "new_EmojiData cps is_emoji_style =
     \<lparr> codepoints = cps, emoji_style = is_emoji_style, emoji_id = 0, width = 0, height = 0,
       sdk_added = SDK_VERSION, compat_added = METADATA_VERSION \<rparr>"

definition update_metrics :: "EmojiData \<Rightarrow> metrics \<Rightarrow> EmojiData" where
  "update_metrics self m = self\<lparr> width := m_width m, height := m_height m \<rparr>"

record json_element =
  json_id :: int
  json_emojiStyle :: bool
  json_sdkAdded :: int
  json_compatAdded :: int
  json_width :: int
  json_height :: int
  json_codepoints :: "int list"

definition create_json_element :: "EmojiData \<Rightarrow> json_element" where
  "create_json_element self =
     \<lparr> json_id = emoji_id self, json_emojiStyle = emoji_style self,
       json_sdkAdded = sdk_added self, json_compatAdded = compat_added self,
       json_width = width self, json_height = height self,
       json_codepoints = codepoints self \<rparr>"

text \<open>
  \<open>create_txt_row\<close> gives the id and the code points as hexadecimal strings and the two
  versions as numbers; \<open>csv.writer\<close> writes a number as \<open>str\<close> of it. A row is the list
  of its fields as they stand in the file: no field the script writes has a space, a
  quote or a line break in it, so \<open>csv.reader\<close> with the same delimiter gives back the
  fields that \<open>csv.writer\<close> was given.
\<close>

definition create_txt_row :: "EmojiData \<Rightarrow> string list" where
  "create_txt_row self =
     [to_hex (emoji_id self), py_str (sdk_added self), py_str (compat_added self)]
       @ map to_hex (codepoints self)"

definition update :: "EmojiData \<Rightarrow> int \<Rightarrow> int \<Rightarrow> int \<Rightarrow> EmojiData" where
  "update self new_id new_sdk new_compat =
     self\<lparr> emoji_id := new_id, sdk_added := new_sdk, compat_added := new_compat \<rparr>"

text \<open>The registry \<open>emoji_data_map\<close>: identity key to entry.\<close>

type_synonym registry = "(string \<times> EmojiData) list"

subsection \<open>Reading the Unicode files\<close>

text \<open>A file is the list of its lines.\<close>

definition read_emoji_lines :: "string list \<Rightarrow> string list" where
  "read_emoji_lines file =
     map py_upper (filter (\<lambda>line. line \<noteq> [] \<and> take 1 line \<noteq> ''#'') (map py_strip file))"

text \<open>
  The head of the loop body of \<open>read_emoji_intervals\<close>: the code points of a line and
  whether the line says \<open>EMOJI_PRESENTATION\<close>. \<open>range(a, b + 1)\<close> is the list
  \<open>[a..b]\<close>, empty when \<open>b < a\<close>.
\<close>

definition interval_line :: "string \<Rightarrow> error + (int list \<times> bool)" where
  "interval_line line =
     (case map py_strip (split_char CHR '';'' (hd (split_char CHR ''#'' line))) of
        [codepoints_range, emoji_property] \<Rightarrow>
          (let is_emoji_style = (emoji_property = ''EMOJI_PRESENTATION'')
           in if contains_dotdot codepoints_range then
                (case split_dotdot codepoints_range of
                   [range_start, range_end] \<Rightarrow>
                     (case hex_str_to_int range_start of
                        Inl e \<Rightarrow> Inl e
                      | Inr a \<Rightarrow>
                          (case hex_str_to_int range_end of
                             Inl e \<Rightarrow> Inl e
                           | Inr b \<Rightarrow> Inr ([a..b], is_emoji_style)))
                 | _ \<Rightarrow> Inl ValueError_unpack)
              else
                (case hex_str_to_int codepoints_range of
                   Inl e \<Rightarrow> Inl e
                 | Inr a \<Rightarrow> Inr ([a], is_emoji_style)))
      | _ \<Rightarrow> Inl ValueError_unpack)"

text \<open>The inner loop of \<open>read_emoji_intervals\<close>, for one code point.\<close>

definition interval_codepoint :: "bool \<Rightarrow> int \<Rightarrow> registry \<Rightarrow> registry" where
  "interval_codepoint is_emoji_style codepoint emoji_data_map =
     (let key = codepoint_to_string [codepoint];
          codepoint_is_emoji_style = (is_emoji_style \<or> codepoint \<in> set EMOJI_STYLE_EXCEPTIONS)
      in case map_of emoji_data_map key of
           Some emoji_data \<Rightarrow>
             if codepoint_is_emoji_style
             then AList.update key (emoji_data\<lparr> emoji_style := True \<rparr>) emoji_data_map
             else emoji_data_map
         | None \<Rightarrow>
             AList.update key (new_EmojiData [codepoint] codepoint_is_emoji_style) emoji_data_map)"

definition read_emoji_intervals_line :: "string \<Rightarrow> registry \<Rightarrow> error + registry" where
  "read_emoji_intervals_line line emoji_data_map =
     (case interval_line line of
        Inl e \<Rightarrow> Inl e
      | Inr (cps, is_emoji_style) \<Rightarrow> Inr (fold (interval_codepoint is_emoji_style) cps emoji_data_map))"

definition read_emoji_intervals :: "registry \<Rightarrow> string list \<Rightarrow> error + registry" where
  "read_emoji_intervals emoji_data_map file =
     fold_err read_emoji_intervals_line (read_emoji_lines file) emoji_data_map"

text \<open>The code points written on a line of a sequence file.\<close>

definition sequence_codepoints :: "string \<Rightarrow> error + int list" where
  "sequence_codepoints line =
     map_err hex_str_to_int (split_char CHR '' '' (py_strip (hd (split_char CHR '';'' line))))"

definition read_emoji_sequences_line :: "string \<Rightarrow> registry \<Rightarrow> error + registry" where
  "read_emoji_sequences_line line emoji_data_map =
     (case sequence_codepoints line of
        Inl e \<Rightarrow> Inl e
      | Inr parsed \<Rightarrow>
          (let cps = filter (\<lambda>x. x \<noteq> EMOJI_STYLE_VS) parsed;
               key = codepoint_to_string cps
           in if map_of emoji_data_map key = None
              then Inr (AList.update key (new_EmojiData cps False) emoji_data_map)
              else Inr emoji_data_map))"

definition read_emoji_sequences :: "registry \<Rightarrow> string list \<Rightarrow> error + registry" where
  "read_emoji_sequences emoji_data_map file =
     fold_err read_emoji_sequences_line (read_emoji_lines file) emoji_data_map"

text \<open>
  The three Unicode files, which \<open>validate_input_files\<close> has found, and the optional
  file of Android's own emoji.
\<close>

record sources =
  EMOJI_DATA_FILE :: "string list"
  EMOJI_ZWJ_FILE :: "string list"
  EMOJI_SEQ_FILE :: "string list"
  ANDROID_EMOJIS_FILE :: "string list option"

definition load_emoji_data_map :: "sources \<Rightarrow> error + registry" where
  "load_emoji_data_map src =
     (case read_emoji_intervals [] (EMOJI_DATA_FILE src) of
        Inl e \<Rightarrow> Inl e
      | Inr m1 \<Rightarrow>
     (case read_emoji_sequences m1 (EMOJI_ZWJ_FILE src) of
        Inl e \<Rightarrow> Inl e
      | Inr m2 \<Rightarrow>
     (case read_emoji_sequences m2 (EMOJI_SEQ_FILE src) of
        Inl e \<Rightarrow> Inl e
      | Inr m3 \<Rightarrow>
     (case ANDROID_EMOJIS_FILE src of
        None \<Rightarrow> Inr m3
      | Some file \<Rightarrow> read_emoji_sequences m3 file))))"

subsection \<open>Reconciliation with the previous run's snapshot\<close>

text \<open>
  The loop body of \<open>load_previous_metadata\<close>, on one row of \<open>csv.reader\<close> (the list
  of the row's fields) and the pair of the registry and \<open>current_emoji_id\<close>.
\<close>

definition load_previous_row ::
    "string list \<Rightarrow> registry \<times> int \<Rightarrow> error + registry \<times> int" where
  "load_previous_row row s =
     (case s of (data_map, current_emoji_id) \<Rightarrow>
      (case row of
         [] \<Rightarrow> Inl IndexError
       | row0 # row_from_1 \<Rightarrow>
           if take 1 row0 = ''#'' then Inr s
           else
           (case hex_str_to_int row0 of
              Inl e \<Rightarrow> Inl e
            | Inr new_id \<Rightarrow>
           (case row_from_1 of
              [] \<Rightarrow> Inl IndexError
            | row1 # row_from_2 \<Rightarrow>
           (case py_int 10 row1 of
              Inl e \<Rightarrow> Inl e
            | Inr new_sdk \<Rightarrow>
           (case row_from_2 of
              [] \<Rightarrow> Inl IndexError
            | row2 # row_from_3 \<Rightarrow>
           (case py_int 10 row2 of
              Inl e \<Rightarrow> Inl e
            | Inr new_compat \<Rightarrow>
           (case map_err hex_str_to_int row_from_3 of
              Inl e \<Rightarrow> Inl e
            | Inr cps \<Rightarrow>
               (let key = codepoint_to_string cps
                in case map_of data_map key of
                     None \<Rightarrow> Inr s
                   | Some emoji_data \<Rightarrow>
                       (let emoji_data' = update emoji_data new_id new_sdk new_compat;
                            data_map' = AList.update key emoji_data' data_map
                        in if emoji_id emoji_data' \<ge> current_emoji_id
                           then Inr (data_map', emoji_id emoji_data' + 1)
                           else Inr (data_map', current_emoji_id)))))))))))"

text \<open>
  \<open>load_previous_metadata\<close>: the snapshot is \<open>None\<close> when the file does not exist. The
  script updates the registry in place and returns the next id; the model returns both.
\<close>

definition load_previous_metadata ::
    "registry \<Rightarrow> string list list option \<Rightarrow> error + registry \<times> int" where
  "load_previous_metadata data_map INPUT_CSV_FILE =
     (case INPUT_CSV_FILE of
        None \<Rightarrow> Inr (data_map, DEFAULT_EMOJI_ID)
      | Some reader \<Rightarrow> fold_err load_previous_row reader (data_map, DEFAULT_EMOJI_ID))"

subsection \<open>The font\<close>

text \<open>
  What the script reads of a \<open>TTFont\<close>: the strikes of \<open>CBDT\<close> (glyph name to bitmap
  metrics), the subtables of \<open>cmap\<close>, and the lookups of \<open>GSUB\<close>, each a list of
  subtables. A table the font lacks is \<open>None\<close>: \<open>ttf[tag]\<close> raises \<open>KeyError\<close>.
  Only a ligature subtable has the attribute \<open>ligatures\<close>.
\<close>

record cmap_table =
  format :: int
  platformID :: int
  platEncID :: int
  cmap :: "(int \<times> string) list"

record ligature =
  Component :: "string list"
  LigGlyph :: string

datatype subtable =
    LigatureSubst (ligatures: "(string \<times> ligature list) list")
  | OtherSubst

record ttfont =
  fontRevision :: int
  CBDT :: "(string \<times> metrics) list list option"
  cmap_tables :: "cmap_table list option"
  GSUB :: "subtable list list option"

subsection \<open>\<open>EmojiFontCreator\<close>\<close>

text \<open>
  The fields of the object; \<open>self_emoji_id\<close> is \<open>self.emoji_id\<close>, the next id to hand
  out (the name \<open>emoji_id\<close> is the field of \<open>_EmojiData\<close>).
\<close>

record creator =
  emoji_data_map :: registry
  remapped_codepoints :: "(int \<times> string) list"
  glyph_to_image_metrics_map :: "(string \<times> metrics) list"
  self_emoji_id :: int

text \<open>\<open>__init__\<close>, after \<open>validate_input_files\<close>.\<close>

definition init_creator :: creator where
  "init_creator =
     \<lparr> emoji_data_map = [], remapped_codepoints = [],
       glyph_to_image_metrics_map = [], self_emoji_id = DEFAULT_EMOJI_ID \<rparr>"

definition update_emoji_data :: "int list \<Rightarrow> string \<Rightarrow> creator \<Rightarrow> error + creator" where
  "update_emoji_data cps glyph_name self =
     (let key = codepoint_to_string cps
      in case map_of (emoji_data_map self) key of
           None \<Rightarrow> Inr self
         | Some emoji_data \<Rightarrow>
             (case map_of (glyph_to_image_metrics_map self) glyph_name of
                None \<Rightarrow> Inl (KeyError glyph_name)
              | Some m \<Rightarrow>
                  (let measured = update_metrics emoji_data m;
                       assigned = (if emoji_id measured = 0
                                   then measured\<lparr> emoji_id := self_emoji_id self \<rparr>
                                   else measured);
                       next_id = (if emoji_id measured = 0
                                  then self_emoji_id self + 1
                                  else self_emoji_id self)
                   in Inr (self\<lparr> emoji_data_map := AList.update key assigned (emoji_data_map self),
                                 self_emoji_id := next_id,
                                 remapped_codepoints :=
                                   AList.update (emoji_id assigned) glyph_name
                                     (remapped_codepoints self) \<rparr>))))"

definition read_cbdt :: "ttfont \<Rightarrow> creator \<Rightarrow> error + creator" where
  "read_cbdt ttf self =
     (case CBDT ttf of
        None \<Rightarrow> Inl (KeyError ''CBDT'')
      | Some strikeData \<Rightarrow>
          Inr (fold (\<lambda>strike_data. fold (\<lambda>(key, data_metrics) self'.
                        self'\<lparr> glyph_to_image_metrics_map :=
                                 AList.update key data_metrics (glyph_to_image_metrics_map self') \<rparr>)
                      strike_data)
                 strikeData self))"

text \<open>One pair of the format 12 subtable, in \<open>read_and_clear_cmap12\<close>.\<close>

definition cmap12_entry ::
    "int \<times> string \<Rightarrow> (string \<times> int) list \<times> creator \<Rightarrow> error + (string \<times> int) list \<times> creator" where
  "cmap12_entry p s =
     (case p of (codepoint, glyph_name) \<Rightarrow>
      (case s of (glyph_to_codepoint_map, self) \<Rightarrow>
      (case update_emoji_data [codepoint] glyph_name self of
         Inl e \<Rightarrow> Inl e
       | Inr self' \<Rightarrow> Inr (AList.update glyph_name codepoint glyph_to_codepoint_map, self'))))"

definition is_cmap12 :: "cmap_table \<Rightarrow> bool" where
  "is_cmap12 table = (format table = 12 \<and> platformID table = 3 \<and> platEncID table = 10)"

text \<open>
  The loop of \<open>read_and_clear_cmap12\<close> over the subtables. The script returns the
  subtable it has cleared, an object of the font; the model returns the subtables after
  the clearing and the position of that one.
\<close>

fun read_and_clear_cmap12_tables ::
    "cmap_table list \<Rightarrow> (string \<times> int) list \<Rightarrow> creator
      \<Rightarrow> error + creator \<times> (string \<times> int) list \<times> cmap_table list \<times> nat" where
  "read_and_clear_cmap12_tables [] g2c self = Inl ValueError_cmap12"
| "read_and_clear_cmap12_tables (table # tables) g2c self =
     (if is_cmap12 table then
        (case fold_err cmap12_entry (cmap table) (g2c, self) of
           Inl e \<Rightarrow> Inl e
         | Inr (g2c', self') \<Rightarrow> Inr (self', g2c', table\<lparr> cmap := [] \<rparr> # tables, 0))
      else
        (case read_and_clear_cmap12_tables tables g2c self of
           Inl e \<Rightarrow> Inl e
         | Inr (self', g2c', tables', i) \<Rightarrow> Inr (self', g2c', table # tables', Suc i)))"

definition read_and_clear_cmap12 ::
    "ttfont \<Rightarrow> (string \<times> int) list \<Rightarrow> creator
      \<Rightarrow> error + creator \<times> (string \<times> int) list \<times> ttfont \<times> nat" where
  "read_and_clear_cmap12 ttf g2c self =
     (case cmap_tables ttf of
        None \<Rightarrow> Inl (KeyError ''cmap'')
      | Some tables \<Rightarrow>
          (case read_and_clear_cmap12_tables tables g2c self of
             Inl e \<Rightarrow> Inl e
           | Inr (self', g2c', tables', i) \<Rightarrow>
               Inr (self', g2c', ttf\<lparr> cmap_tables := Some tables' \<rparr>, i)))"

text \<open>\<open>glyph_to_codepoint_map[x]\<close>\<close>

definition glyph_codepoint :: "(string \<times> int) list \<Rightarrow> string \<Rightarrow> error + int" where
  "glyph_codepoint g2c x = (case map_of g2c x of None \<Rightarrow> Inl (KeyError x) | Some c \<Rightarrow> Inr c)"

text \<open>One ligature of \<open>read_and_clear_gsub\<close>.\<close>

definition gsub_ligature ::
    "(string \<times> int) list \<Rightarrow> string \<Rightarrow> ligature \<Rightarrow> creator \<Rightarrow> error + creator" where
  "gsub_ligature g2c name lig self =
     (let glyph_names = name # Component lig
      in case map_err (glyph_codepoint g2c) glyph_names of
           Inl e \<Rightarrow> Inl e
         | Inr cps \<Rightarrow> update_emoji_data cps (LigGlyph lig) self)"

definition gsub_subtable ::
    "(string \<times> int) list \<Rightarrow> subtable \<Rightarrow> creator \<Rightarrow> error + creator \<times> subtable" where
  "gsub_subtable g2c st self =
     (case st of
        OtherSubst \<Rightarrow> Inl AttributeError
      | LigatureSubst ligs \<Rightarrow>
          (case fold_err (\<lambda>(name, ls). fold_err (gsub_ligature g2c name) ls) ligs self of
             Inl e \<Rightarrow> Inl e
           | Inr self' \<Rightarrow> Inr (self', LigatureSubst [])))"

text \<open>A loop that changes the state and each element it visits.\<close>

fun map_state_err ::
    "('a \<Rightarrow> 's \<Rightarrow> error + 's \<times> 'b) \<Rightarrow> 'a list \<Rightarrow> 's \<Rightarrow> error + 's \<times> 'b list" where
  "map_state_err f [] s = Inr (s, [])"
| "map_state_err f (x # xs) s =
     (case f x s of
        Inl e \<Rightarrow> Inl e
      | Inr (s', y) \<Rightarrow>
          (case map_state_err f xs s' of
             Inl e \<Rightarrow> Inl e
           | Inr (s'', ys) \<Rightarrow> Inr (s'', y # ys)))"

definition read_and_clear_gsub ::
    "ttfont \<Rightarrow> (string \<times> int) list \<Rightarrow> creator \<Rightarrow> error + creator \<times> ttfont" where
  "read_and_clear_gsub ttf g2c self =
     (case GSUB ttf of
        None \<Rightarrow> Inl (KeyError ''GSUB'')
      | Some lookups \<Rightarrow>
          (case map_state_err (map_state_err (gsub_subtable g2c)) lookups self of
             Inl e \<Rightarrow> Inl e
           | Inr (self', lookups') \<Rightarrow> Inr (self', ttf\<lparr> GSUB := Some lookups' \<rparr>)))"

subsection \<open>The two outputs\<close>

record output_json =
  json_version :: int
  json_list :: "json_element list"

text \<open>\<open>sorted(..., key=...)\<close> is stable, as \<open>sort_key\<close> is.\<close>

definition write_metadata_json :: "creator \<Rightarrow> output_json \<times> int" where
  "write_metadata_json self =
     (let emoji_data_list = sort_key emoji_id (map snd (emoji_data_map self));
          (elements, total_emoji_count) =
             fold (\<lambda>emoji_data (elements, total_emoji_count).
                     (elements @ [create_json_element emoji_data], total_emoji_count + 1))
               emoji_data_list ([], 0)
      in (\<lparr> json_version = METADATA_VERSION, json_list = elements \<rparr>, total_emoji_count))"

definition write_metadata_csv :: "creator \<Rightarrow> string list list" where
  "write_metadata_csv self =
     (let emoji_data_list = sort_key emoji_id (map snd (emoji_data_map self))
      in fold (\<lambda>emoji_data rows. rows @ [create_txt_row emoji_data]) emoji_data_list
           [[''#id'', ''sdkAdded'', ''compatAdded'', ''codepoints'']])"

subsection \<open>\<open>create_font\<close>\<close>

text \<open>\<open>d.update(other)\<close> on dictionaries.\<close>

definition dict_update :: "('k \<times> 'v) list \<Rightarrow> ('k \<times> 'v) list \<Rightarrow> ('k \<times> 'v) list" where
  "dict_update d other = fold (\<lambda>(k, v). AList.update k v) other d"

text \<open>
  The font-table rewriting of \<open>create_font\<close>: the two walks, then the refill of the
  subtable that \<open>read_and_clear_cmap12\<close> returned.
\<close>

definition rewrite_font :: "ttfont \<Rightarrow> creator \<Rightarrow> error + creator \<times> ttfont" where
  "rewrite_font ttf self =
     (case read_and_clear_cmap12 ttf [] self of
        Inl e \<Rightarrow> Inl e
      | Inr (self1, glyph_to_codepoint_map, ttf1, i) \<Rightarrow>
     (case read_and_clear_gsub ttf1 glyph_to_codepoint_map self1 of
        Inl e \<Rightarrow> Inl e
      | Inr (self2, ttf2) \<Rightarrow>
          Inr (self2,
               ttf2\<lparr> cmap_tables :=
                      map_option
                        (\<lambda>tables. tables[i := (tables ! i)\<lparr> cmap :=
                                     dict_update (cmap (tables ! i)) (remapped_codepoints self2) \<rparr>])
                        (cmap_tables ttf2) \<rparr>)))"

record font_result =
  res_self :: creator
  res_ttf :: ttfont
  res_json :: output_json
  res_count :: int
  res_csv :: "string list list"

text \<open>
  \<open>create_font\<close> up to the two files it writes; what follows in the script (the
  FlatBuffers compiler, the \<open>meta\<close> table, saving the font, the tests) is outside.
\<close>

definition create_font ::
    "sources \<Rightarrow> string list list option \<Rightarrow> ttfont \<Rightarrow> creator \<Rightarrow> error + font_result" where
  "create_font src INPUT_CSV_FILE ttf0 self0 =
     (case load_emoji_data_map src of
        Inl e \<Rightarrow> Inl e
      | Inr data_map \<Rightarrow>
     (case load_previous_metadata data_map INPUT_CSV_FILE of
        Inl e \<Rightarrow> Inl e
      | Inr (data_map', next_id) \<Rightarrow>
     (let self1 = self0\<lparr> emoji_data_map := data_map', self_emoji_id := next_id \<rparr>;
          ttf = ttf0\<lparr> fontRevision := METADATA_VERSION \<rparr>
      in case read_cbdt ttf self1 of
           Inl e \<Rightarrow> Inl e
         | Inr self2 \<Rightarrow>
        (case rewrite_font ttf self2 of
           Inl e \<Rightarrow> Inl e
         | Inr (self3, ttf') \<Rightarrow>
             (let (doc, total_emoji_count) = write_metadata_json self3
              in Inr \<lparr> res_self = self3, res_ttf = ttf', res_json = doc,
                       res_count = total_emoji_count,
                       res_csv = write_metadata_csv self3 \<rparr>)))))"

subsection \<open>What the two walks pass to \<open>update_emoji_data\<close>\<close>

text \<open>
  The calls of \<open>update_emoji_data\<close> that \<open>read_and_clear_cmap12\<close> and
  \<open>read_and_clear_gsub\<close> make, as a list of the arguments in the order of the calls.
  These functions are not in the script: the statements about the walks are made with them.
\<close>

definition update_calls :: "(int list \<times> string) list \<Rightarrow> creator \<Rightarrow> error + creator" where
  "update_calls calls self = fold_err (\<lambda>(cps, glyph_name). update_emoji_data cps glyph_name) calls self"

definition cmap12_calls :: "(int \<times> string) list \<Rightarrow> (int list \<times> string) list" where
  "cmap12_calls pairs = map (\<lambda>(codepoint, glyph_name). ([codepoint], glyph_name)) pairs"

text \<open>\<open>glyph_to_codepoint_map\<close> after the pairs of the format 12 subtable.\<close>

definition side_table :: "(int \<times> string) list \<Rightarrow> (string \<times> int) list \<Rightarrow> (string \<times> int) list" where
  "side_table pairs g2c = fold (\<lambda>(codepoint, glyph_name). AList.update glyph_name codepoint) pairs g2c"

definition subtable_rules :: "subtable \<Rightarrow> (string \<times> ligature) list" where
  "subtable_rules st =
     (case st of
        LigatureSubst ligs \<Rightarrow> concat (map (\<lambda>(name, ls). map (Pair name) ls) ligs)
      | OtherSubst \<Rightarrow> [])"

definition gsub_rules :: "subtable list list \<Rightarrow> (string \<times> ligature) list" where
  "gsub_rules lookups = concat (map subtable_rules (concat lookups))"

definition ligature_call ::
    "(string \<times> int) list \<Rightarrow> string \<times> ligature \<Rightarrow> error + int list \<times> string" where
  "ligature_call g2c rule =
     (case map_err (glyph_codepoint g2c) (fst rule # Component (snd rule)) of
        Inl e \<Rightarrow> Inl e
      | Inr cps \<Rightarrow> Inr (cps, LigGlyph (snd rule)))"

definition walk_calls :: "ttfont \<Rightarrow> (int list \<times> string) list" where
  "walk_calls ttf =
     (case cmap_tables ttf of
        None \<Rightarrow> []
      | Some tables \<Rightarrow>
          (case find is_cmap12 tables of
             None \<Rightarrow> []
           | Some table \<Rightarrow>
               cmap12_calls (cmap table) @
               (case GSUB ttf of
                  None \<Rightarrow> []
                | Some lookups \<Rightarrow>
                    (case map_err (ligature_call (side_table (cmap table) [])) (gsub_rules lookups) of
                       Inl e \<Rightarrow> []
                     | Inr calls \<Rightarrow> calls))))"



subsection \<open>The ids of a snapshot\<close>

text \<open>
  The id and the key that \<open>load_previous_metadata\<close> reads from a row: nothing for a
  header row and for a row it cannot read. The ids of a snapshot are those of its rows;
  the matched ids are those of the rows whose key is in the registry. These functions
  are not in the script: the statements about the returned id are made with them.
\<close>

definition row_id_key :: "string list \<Rightarrow> (int \<times> string) option" where
  "row_id_key row =
     (case row of
        row0 # row1 # row2 # row_from_3 \<Rightarrow>
          if take 1 row0 = ''#'' then None
          else (case (hex_str_to_int row0, map_err hex_str_to_int row_from_3) of
                  (Inr new_id, Inr cps) \<Rightarrow> Some (new_id, codepoint_to_string cps)
                | _ \<Rightarrow> None)
      | _ \<Rightarrow> None)"

definition snapshot_ids :: "string list list \<Rightarrow> int list" where
  "snapshot_ids rows = map fst (List.map_filter row_id_key rows)"

definition matched_ids :: "registry \<Rightarrow> string list list \<Rightarrow> int list" where
  "matched_ids data_map rows =
     map fst (filter (\<lambda>(new_id, key). map_of data_map key \<noteq> None) (List.map_filter row_id_key rows))"

subsection \<open>A registry built by the script\<close>

text \<open>
  Every registry the script builds has one pair for a key, and the key of an entry is
  the string of its code points: \<open>emoji_data_map[key] = _EmojiData(codepoints, ...)\<close> with
  \<open>key = codepoint_to_string(codepoints)\<close> is the only way an entry gets in.
\<close>

definition registry_keyed :: "registry \<Rightarrow> bool" where
  "registry_keyed data_map =
     (distinct (map fst data_map) \<and>
      list_all (\<lambda>(key, emoji_data). key = codepoint_to_string (codepoints emoji_data)) data_map)"

subsection \<open>Example inputs\<close>

text \<open>
  A font with the regional indicators A and C in its format 12 subtable and two lookups
  that both hold a ligature rule for the pair, with different result glyphs; and a
  creator whose registry has the entry of the pair and the metrics of the two glyphs.
\<close>

definition example_flag_font :: ttfont where
  "example_flag_font =
     \<lparr> fontRevision = 0,
       CBDT = Some [[(''flag1'', \<lparr> m_width = 136, m_height = 128 \<rparr>),
                    (''flag2'', \<lparr> m_width = 72, m_height = 72 \<rparr>)]],
       cmap_tables = Some [\<lparr> format = 12, platformID = 3, platEncID = 10,
                              cmap = [(0x1F1E6, ''a''), (0x1F1E8, ''c'')] \<rparr>],
       GSUB = Some [[LigatureSubst [(''a'', [\<lparr> Component = [''c''], LigGlyph = ''flag1'' \<rparr>])]],
                    [LigatureSubst [(''a'', [\<lparr> Component = [''c''], LigGlyph = ''flag2'' \<rparr>])]]] \<rparr>"

definition example_flag_self :: creator where
  "example_flag_self =
     \<lparr> emoji_data_map = [(''0x1f1e6 0x1f1e8'', new_EmojiData [0x1F1E6, 0x1F1E8] False)],
       remapped_codepoints = [],
       glyph_to_image_metrics_map = [(''flag1'', \<lparr> m_width = 136, m_height = 128 \<rparr>),
                                     (''flag2'', \<lparr> m_width = 72, m_height = 72 \<rparr>)],
       self_emoji_id = 0xF0001 \<rparr>"

text \<open>A font whose only \<open>cmap\<close> subtable is a format 4 one.\<close>

definition example_bmp_font :: ttfont where
  "example_bmp_font =
     \<lparr> fontRevision = 0, CBDT = Some [],
       cmap_tables = Some [\<lparr> format = 4, platformID = 3, platEncID = 1,
                              cmap = [(0x263A, ''smile'')] \<rparr>],
       GSUB = Some [] \<rparr>"

text \<open>
  Two emoji in the Unicode data, and a font that has a glyph for the first one only.
\<close>

definition example_sources :: sources where
  "example_sources =
     \<lparr> EMOJI_DATA_FILE = [''1F600..1F601 ; Emoji # faces''],
       EMOJI_ZWJ_FILE = [], EMOJI_SEQ_FILE = [], ANDROID_EMOJIS_FILE = None \<rparr>"

definition example_font :: ttfont where
  "example_font =
     \<lparr> fontRevision = 0,
       CBDT = Some [[(''grin'', \<lparr> m_width = 136, m_height = 128 \<rparr>)]],
       cmap_tables = Some [\<lparr> format = 12, platformID = 3, platEncID = 10,
                              cmap = [(0x1F600, ''grin'')] \<rparr>],
       GSUB = Some [] \<rparr>"

text \<open>A snapshot of an earlier run in which the second emoji had a glyph and got an id.\<close>

definition example_snapshot :: "string list list" where
  "example_snapshot =
     [[''#id'', ''sdkAdded'', ''compatAdded'', ''codepoints''],
      [''F0001'', ''19'', ''1'', ''1F601'']]"

text \<open>
  A font whose ligature rule names the glyph \<open>c\<close>, which its format 12 subtable does
  not have.
\<close>

definition example_broken_font :: ttfont where
  "example_broken_font =
     \<lparr> fontRevision = 0,
       CBDT = Some [[(''flag1'', \<lparr> m_width = 136, m_height = 128 \<rparr>)]],
       cmap_tables = Some [\<lparr> format = 12, platformID = 3, platEncID = 10,
                              cmap = [(0x1F1E6, ''a'')] \<rparr>],
       GSUB = Some [[LigatureSubst [(''a'', [\<lparr> Component = [''c''], LigGlyph = ''flag1'' \<rparr>])]]] \<rparr>"

section \<open>Properties\<close>

subsection \<open>Loops that may raise\<close>

lemma fold_err_append:
  "fold_err f (xs @ ys) s = (case fold_err f xs s of Inl e \<Rightarrow> Inl e | Inr s1 \<Rightarrow> fold_err f ys s1)"
  by (induction xs arbitrary: s) (auto split: sum.splits)

lemma fold_err_invariant:
  assumes "fold_err f xs s = Inr s'" and "P s"
    and "\<And>x a b. x \<in> set xs \<Longrightarrow> P a \<Longrightarrow> f x a = Inr b \<Longrightarrow> P b"
  shows "P s'"
  using assms
proof (induction xs arbitrary: s)
  case Nil
  then show ?case by simp
next
  case (Cons x xs)
  from Cons.prems(1) obtain s1 where s1: "f x s = Inr s1" and rest: "fold_err f xs s1 = Inr s'"
    by (auto split: sum.splits)
  have "P s1" using Cons.prems(2) Cons.prems(3) [of x s s1] s1 by simp
  then show ?case
  proof (rule Cons.IH [OF rest])
    fix z a b assume "z \<in> set xs" "P a" "f z a = Inr b"
    then show "P b" using Cons.prems(3) [of z a b] by simp
  qed
qed

lemma fold_err_established:
  assumes "fold_err f xs s = Inr s'" and "x \<in> set xs"
    and "\<And>a b. f x a = Inr b \<Longrightarrow> Q b"
    and "\<And>y a b. y \<in> set xs \<Longrightarrow> Q a \<Longrightarrow> f y a = Inr b \<Longrightarrow> Q b"
  shows "Q s'"
  using assms
proof (induction xs arbitrary: s)
  case Nil
  then show ?case by simp
next
  case (Cons y ys)
  from Cons.prems(1) obtain s1 where s1: "f y s = Inr s1" and rest: "fold_err f ys s1 = Inr s'"
    by (auto split: sum.splits)
  show ?case
  proof (cases "x = y")
    case True
    then have "Q s1" using Cons.prems(3) s1 by simp
    then show ?thesis
    proof (rule fold_err_invariant [OF rest])
      fix z a b assume "z \<in> set ys" "Q a" "f z a = Inr b"
      then show "Q b" using Cons.prems(4) [of z a b] by simp
    qed
  next
    case False
    then have "x \<in> set ys" using Cons.prems(2) by simp
    then show ?thesis
    proof (rule Cons.IH [OF rest])
      fix a b assume "f x a = Inr b"
      then show "Q b" by (rule Cons.prems(3))
    next
      fix z a b assume "z \<in> set ys" "Q a" "f z a = Inr b"
      then show "Q b" using Cons.prems(4) [of z a b] by simp
    qed
  qed
qed

lemma fold_err_step_succeeds:
  assumes "fold_err f xs s = Inr s'" and "x \<in> set xs"
  shows "\<exists>a b. f x a = Inr b"
  using assms
  by (induction xs arbitrary: s) (auto split: sum.splits)

lemma fold_invariant:
  assumes "P s" and "\<And>x a. x \<in> set xs \<Longrightarrow> P a \<Longrightarrow> P (f x a)"
  shows "P (fold f xs s)"
  using assms by (induction xs arbitrary: s) auto


subsection \<open>Numbers written and read back\<close>

lemma less_16_cases:
  "(d::nat) < 16 \<Longrightarrow> d \<in> {0, 1, 2, 3, 4, 5, 6, 7, 8, 9, 10, 11, 12, 13, 14, 15}"
  by simp arith

lemma digit_val_upper_digit: "d < 16 \<Longrightarrow> digit_val (upper_digit d) = Some d"
  by (drule less_16_cases) (auto simp: digit_val_def upper_digit_def)


lemma upper_digit_plain:
  "d < 16 \<Longrightarrow> upper_digit d \<notin> set ''-+xX #'' \<and> \<not> is_space (upper_digit d)"
  by (drule less_16_cases) (auto simp: upper_digit_def is_space_def)


lemma nat_digits_less: "2 \<le> b \<Longrightarrow> d \<in> set (nat_digits b n) \<Longrightarrow> d < b"
proof (induction b n rule: nat_digits.induct)
  case (1 b n)
  show ?case
  proof (cases "n < b")
    case True
    then show ?thesis using "1.prems" by (simp add: nat_digits.simps [of b n])
  next
    case False
    then show ?thesis using "1.prems" "1.IH"
      by (auto simp: nat_digits.simps [of b n])
  qed
qed

lemma nat_digits_nonempty: "nat_digits b n \<noteq> []"
  by (simp add: nat_digits.simps [of b n])

lemma parse_digits_append:
  "parse_digits b acc (xs @ ys) =
     (case parse_digits b acc xs of None \<Rightarrow> None | Some a \<Rightarrow> parse_digits b a ys)"
  by (induction xs arbitrary: acc) (auto split: option.splits)

lemma parse_digits_nat_digits:
  assumes "2 \<le> b" and "\<And>d. d < b \<Longrightarrow> digit_val (ch d) = Some d"
  shows "parse_digits b 0 (map ch (nat_digits b n)) = Some n"
  using assms
proof (induction b n rule: nat_digits.induct)
  case (1 b n)
  show ?case
  proof (cases "n < b")
    case True
    then show ?thesis using "1.prems" by (simp add: nat_digits.simps [of b n])
  next
    case False
    then have rec: "parse_digits b 0 (map ch (nat_digits b (n div b))) = Some (n div b)"
      using "1.IH" "1.prems" by simp
    have "n mod b < b" using "1.prems"(1) by simp
    then have last: "parse_digits b (n div b) [ch (n mod b)] = Some n"
      using "1.prems"(2) [of "n mod b"] by simp
    show ?thesis
      using False "1.prems"(1) rec last
      by (simp add: nat_digits.simps [of b n] parse_digits_append)
  qed
qed

lemma not_space_strip:
  assumes "s \<noteq> []" and "\<not> is_space (hd s)" and "\<not> is_space (last s)"
  shows "py_strip s = s"
proof -
  have a: "dropWhile is_space s = s" using assms(1,2) by (cases s) auto
  have "rev s \<noteq> []" "\<not> is_space (hd (rev s))" using assms(1,3) by (simp_all add: hd_rev)
  then have "dropWhile is_space (rev s) = rev s" by (cases "rev s") auto
  then show ?thesis using a by (simp add: py_strip_def)
qed

lemma plain_strip:
  assumes "\<forall>c \<in> set s. \<not> is_space c"
  shows "py_strip s = s"
proof (cases "s = []")
  case True
  then show ?thesis by (simp add: py_strip_def)
next
  case False
  then show ?thesis using assms by (intro not_space_strip) auto
qed

lemma py_int_16_digits:
  assumes "\<And>d. d < 16 \<Longrightarrow> digit_val (ch d) = Some d"
    and "\<And>d. d < 16 \<Longrightarrow> ch d \<notin> set ''-+xX #'' \<and> \<not> is_space (ch d)"
  shows "py_int 16 (map ch (nat_digits 16 n)) = Inr (int n)"
    and "py_int 16 (CHR ''-'' # map ch (nat_digits 16 n)) = Inr (- int n)"
proof -
  let ?ds = "map ch (nat_digits 16 n)"
  have plain: "\<forall>c \<in> set ?ds. c \<notin> set ''-+xX #'' \<and> \<not> is_space c"
    using assms(2) nat_digits_less [of 16 _ n] by auto
  have ne: "?ds \<noteq> []" using nat_digits_nonempty by simp
  have strip1: "py_strip ?ds = ?ds" using plain by (intro plain_strip) auto
  have strip2: "py_strip (CHR ''-'' # ?ds) = CHR ''-'' # ?ds"
    using plain by (intro plain_strip) (auto simp: is_space_def)
  have nosign: "take 1 ?ds \<noteq> ''-''" "take 1 ?ds \<noteq> ''+''"
    using plain ne by (cases ?ds; auto)+
  have noprefix: "take 2 ?ds \<noteq> ''0x''" "take 2 ?ds \<noteq> ''0X''"
    using plain by (cases ?ds; cases "tl ?ds"; auto)+
  have parse: "parse_digits 16 0 ?ds = Some n"
    using assms(1) by (intro parse_digits_nat_digits) auto
  show "py_int 16 ?ds = Inr (int n)"
    using strip1 nosign noprefix ne parse by (simp add: py_int_def Let_def)
  show "py_int 16 (CHR ''-'' # ?ds) = Inr (- int n)"
    using strip2 noprefix ne parse by (simp add: py_int_def Let_def)
qed


lemma hex_str_to_int_to_hex: "hex_str_to_int (to_hex v) = Inr v"
  using py_int_16_digits [of upper_digit, OF digit_val_upper_digit upper_digit_plain]
  by (simp add: hex_str_to_int_def to_hex_def)



lemma py_int_py_str: "py_int 10 (py_str v) = Inr v"
proof -
  let ?n = "if v < 0 then nat (- v) else nat v"
  let ?ds = "map upper_digit (nat_digits 10 ?n)"
  have lt: "\<forall>d \<in> set (nat_digits 10 ?n). d < 16"
    using nat_digits_less [of 10 _ ?n] by fastforce
  have plain: "\<forall>c \<in> set ?ds. c \<notin> set ''-+xX #'' \<and> \<not> is_space c"
    using upper_digit_plain lt by auto
  have ne: "?ds \<noteq> []" using nat_digits_nonempty by simp
  have parse: "parse_digits 10 0 ?ds = Some ?n"
    using digit_val_upper_digit by (intro parse_digits_nat_digits) auto
  have strip1: "py_strip ?ds = ?ds" using plain by (intro plain_strip) auto
  have strip2: "py_strip (CHR ''-'' # ?ds) = CHR ''-'' # ?ds"
    using plain by (intro plain_strip) (auto simp: is_space_def)
  have nosign: "take 1 ?ds \<noteq> ''-''" "take 1 ?ds \<noteq> ''+''"
    using plain ne by (cases ?ds; auto)+
  show ?thesis
  proof (cases "v < 0")
    case True
    then show ?thesis using strip2 ne parse by (simp add: py_int_def py_str_def Let_def)
  next
    case False
    then show ?thesis using strip1 nosign ne parse by (simp add: py_int_def py_str_def Let_def)
  qed
qed

lemma to_hex_not_comment: "take 1 (to_hex v) \<noteq> ''#''"
proof -
  let ?n = "if v < 0 then nat (- v) else nat v"
  let ?ds = "map upper_digit (nat_digits 16 ?n)"
  have plain: "\<forall>c \<in> set ?ds. c \<notin> set ''-+xX #''"
    using upper_digit_plain nat_digits_less [of 16 _ ?n] by auto
  have ne: "?ds \<noteq> []" using nat_digits_nonempty by simp
  have "take 1 ?ds \<noteq> ''#''" using plain ne by (cases ?ds; auto)
  then show ?thesis by (cases "v < 0") (simp_all add: to_hex_def)
qed

lemma map_err_map:
  assumes "\<And>x. f (g x) = Inr x"
  shows "map_err f (map g xs) = Inr xs"
  by (induction xs) (simp_all add: assms)









subsection \<open>The sequence files\<close>

lemma sequences_line_cases:
  assumes "read_emoji_sequences_line line m = Inr m'"
  shows "\<exists>parsed. sequence_codepoints line = Inr parsed \<and>
           (let cps = filter (\<lambda>x. x \<noteq> EMOJI_STYLE_VS) parsed; key = codepoint_to_string cps
            in (map_of m key \<noteq> None \<and> m' = m) \<or>
               (map_of m key = None \<and> m' = AList.update key (new_EmojiData cps False) m))"
  using assms
  by (auto simp: read_emoji_sequences_line_def Let_def split: sum.splits if_splits)

lemma sequences_line_keeps:
  assumes "read_emoji_sequences_line line m = Inr m'" and "map_of m k = Some e"
  shows "map_of m' k = Some e"
  using sequences_line_cases [OF assms(1)] assms(2)
  by (auto simp: Let_def update_conv')

lemma sequences_line_new:
  assumes "read_emoji_sequences_line line m = Inr m'" and "map_of m' k = Some e"
  shows "map_of m k = Some e \<or>
         (map_of m k = None \<and> (\<exists>cps. k = codepoint_to_string cps \<and> e = new_EmojiData cps False))"
  using sequences_line_cases [OF assms(1)] assms(2)
  by (auto simp: Let_def update_conv' split: if_splits)

lemma sequences_keeps:
  assumes "read_emoji_sequences m file = Inr m'" and "map_of m k = Some e"
  shows "map_of m' k = Some e"
  using assms unfolding read_emoji_sequences_def
  by (rule fold_err_invariant) (auto dest: sequences_line_keeps)

lemma sequences_new:
  assumes "read_emoji_sequences m file = Inr m'" and "map_of m' k = Some e"
  shows "map_of m k = Some e \<or>
         (map_of m k = None \<and> (\<exists>cps. k = codepoint_to_string cps \<and> e = new_EmojiData cps False))"
proof -
  let ?new = "\<lambda>e. \<exists>cps. k = codepoint_to_string cps \<and> e = new_EmojiData cps False"
  let ?P = "\<lambda>a. (\<forall>e0. map_of m k = Some e0 \<longrightarrow> map_of a k = Some e0) \<and>
                (\<forall>e. map_of a k = Some e \<longrightarrow> map_of m k = Some e \<or> (map_of m k = None \<and> ?new e))"
  have "?P m'"
    using assms(1) unfolding read_emoji_sequences_def
  proof (rule fold_err_invariant)
    show "?P m" by auto
  next
    fix x a b
    assume a: "?P a" and step: "read_emoji_sequences_line x a = Inr b"
    show "?P b"
    proof (intro conjI allI impI)
      fix e0 assume "map_of m k = Some e0"
      then show "map_of b k = Some e0" using a sequences_line_keeps [OF step] by blast
    next
      fix e1 assume "map_of b k = Some e1"
      then have "map_of a k = Some e1 \<or> (map_of a k = None \<and> ?new e1)"
        by (rule sequences_line_new [OF step])
      then show "map_of m k = Some e1 \<or> (map_of m k = None \<and> ?new e1)"
      proof
        assume "map_of a k = Some e1"
        then show ?thesis using a by blast
      next
        assume n: "map_of a k = None \<and> ?new e1"
        have "map_of m k = None"
        proof (cases "map_of m k")
          case None then show ?thesis .
        next
          case (Some e0)
          then have "map_of a k = Some e0" using a by blast
          then show ?thesis using n by simp
        qed
        then show ?thesis using n by blast
      qed
    qed
  qed
  then show ?thesis using assms(2) by blast
qed



text \<open>
  Claim C10. Every entry that reading a sequence file puts into the registry has
  \<open>emoji_style = False\<close>, and an entry that was in the registry before is the same
  afterwards: a sequence line never sets the flag of an entry.
\<close>

theorem sequences_never_emoji_style:
  assumes "read_emoji_sequences m file = Inr m'" and "map_of m' k = Some e"
  shows "map_of m k = Some e \<or> (map_of m k = None \<and> \<not> emoji_style e)"
  using sequences_new [OF assms] by (auto simp: new_EmojiData_def)

theorem sequences_never_emoji_style_witness:
  "read_emoji_sequences [] [''1f1e6 1f1e8 ; flag''] =
     Inr [(''0x1f1e6 0x1f1e8'', new_EmojiData [0x1F1E6, 0x1F1E8] False)] \<and>
   map_of [(''0x1f1e6 0x1f1e8'', new_EmojiData [0x1F1E6, 0x1F1E8] False)] ''0x1f1e6 0x1f1e8'' =
     Some (new_EmojiData [0x1F1E6, 0x1F1E8] False) \<and>
   (map_of ([] :: registry) ''0x1f1e6 0x1f1e8'' = Some (new_EmojiData [0x1F1E6, 0x1F1E8] False) \<or>
    (map_of ([] :: registry) ''0x1f1e6 0x1f1e8'' = None \<and>
     \<not> emoji_style (new_EmojiData [0x1F1E6, 0x1F1E8] False)))"
proof -
  have h1: "read_emoji_sequences [] [''1f1e6 1f1e8 ; flag''] =
     Inr [(''0x1f1e6 0x1f1e8'', new_EmojiData [0x1F1E6, 0x1F1E8] False)]"
    by (simp add: read_emoji_sequences_def read_emoji_lines_def py_strip_def is_space_def
        py_upper_def upper_char_def read_emoji_sequences_line_def sequence_codepoints_def
        hex_str_to_int_def py_int_def digit_val_def EMOJI_STYLE_VS_def codepoint_to_string_def
        py_hex_def lower_digit_def nat_digits.simps new_EmojiData_def Let_def)
  have h2: "map_of [(''0x1f1e6 0x1f1e8'', new_EmojiData [0x1F1E6, 0x1F1E8] False)] ''0x1f1e6 0x1f1e8'' =
     Some (new_EmojiData [0x1F1E6, 0x1F1E8] False)"
    by simp
  from sequences_never_emoji_style [OF h1 h2] h1 h2 show ?thesis by blast
qed

subsection \<open>The interval file\<close>

lemma interval_codepoint_styled:
  assumes "style \<or> cp \<in> set EMOJI_STYLE_EXCEPTIONS"
  shows "\<exists>e. map_of (interval_codepoint style cp m) (codepoint_to_string [cp]) = Some e \<and> emoji_style e"
  using assms
  by (auto simp: interval_codepoint_def Let_def update_conv' new_EmojiData_def split: option.splits)

lemma interval_codepoint_keeps_styled:
  assumes "\<exists>e. map_of m k = Some e \<and> emoji_style e"
  shows "\<exists>e. map_of (interval_codepoint style cp m) k = Some e \<and> emoji_style e"
  using assms
  by (auto simp: interval_codepoint_def Let_def update_conv' split: option.splits)

lemma fold_interval_codepoint_styled:
  assumes "cp \<in> set cps" and "cp \<in> set EMOJI_STYLE_EXCEPTIONS"
  shows "\<exists>e. map_of (fold (interval_codepoint style) cps m) (codepoint_to_string [cp]) = Some e \<and> emoji_style e"
  using assms(1)
proof (induction cps arbitrary: m)
  case Nil
  then show ?case by simp
next
  case (Cons c cps)
  show ?case
  proof (cases "cp = c")
    case True
    have "\<exists>e. map_of (interval_codepoint style c m) (codepoint_to_string [cp]) = Some e \<and> emoji_style e"
      using interval_codepoint_styled [of style cp m] assms(2) True by simp
    then have "\<exists>e. map_of (fold (interval_codepoint style) cps (interval_codepoint style c m))
                 (codepoint_to_string [cp]) = Some e \<and> emoji_style e"
      by (rule fold_invariant) (rule interval_codepoint_keeps_styled)
    then show ?thesis by simp
  next
    case False
    then have "cp \<in> set cps" using Cons.prems by simp
    from Cons.IH [OF this] show ?thesis by simp
  qed
qed

lemma intervals_line_keeps_styled:
  assumes "read_emoji_intervals_line line m = Inr m'" and "\<exists>e. map_of m k = Some e \<and> emoji_style e"
  shows "\<exists>e. map_of m' k = Some e \<and> emoji_style e"
proof -
  obtain cps style where "m' = fold (interval_codepoint style) cps m"
    using assms(1) by (auto simp: read_emoji_intervals_line_def split: sum.splits)
  then show ?thesis
    using fold_invariant [of "\<lambda>r. \<exists>e. map_of r k = Some e \<and> emoji_style e" m cps "interval_codepoint style"]
      assms(2) interval_codepoint_keeps_styled by blast
qed

lemma intervals_styled:
  assumes "read_emoji_intervals m file = Inr m'"
    and "line \<in> set (read_emoji_lines file)"
    and "interval_line line = Inr (cps, style)"
    and "cp \<in> set cps" and "cp \<in> set EMOJI_STYLE_EXCEPTIONS"
  shows "\<exists>e. map_of m' (codepoint_to_string [cp]) = Some e \<and> emoji_style e"
  using assms(1,2) unfolding read_emoji_intervals_def
proof (rule fold_err_established)
  fix a b assume "read_emoji_intervals_line line a = Inr b"
  then have "b = fold (interval_codepoint style) cps a"
    using assms(3) by (simp add: read_emoji_intervals_line_def)
  then show "\<exists>e. map_of b (codepoint_to_string [cp]) = Some e \<and> emoji_style e"
    using fold_interval_codepoint_styled [OF assms(4,5)] by simp
next
  fix y a b
  assume "\<exists>e. map_of a (codepoint_to_string [cp]) = Some e \<and> emoji_style e"
    and "read_emoji_intervals_line y a = Inr b"
  then show "\<exists>e. map_of b (codepoint_to_string [cp]) = Some e \<and> emoji_style e"
    using intervals_line_keeps_styled by blast
qed

text \<open>
  Claim C6. A code point of \<open>EMOJI_STYLE_EXCEPTIONS\<close> that a line of the interval file
  covers has, in the registry that \<open>load_emoji_data_map\<close> returns, an entry with
  \<open>emoji_style = True\<close>, whatever property the line names.
\<close>

theorem style_exceptions_are_emoji_style:
  assumes "load_emoji_data_map src = Inr m'"
    and "line \<in> set (read_emoji_lines (EMOJI_DATA_FILE src))"
    and "interval_line line = Inr (cps, style)"
    and "cp \<in> set cps" and "cp \<in> set EMOJI_STYLE_EXCEPTIONS"
  shows "\<exists>e. map_of m' (codepoint_to_string [cp]) = Some e \<and> emoji_style e"
proof -
  from assms(1) obtain m1 m2 m3 where
    m1: "read_emoji_intervals [] (EMOJI_DATA_FILE src) = Inr m1" and
    m2: "read_emoji_sequences m1 (EMOJI_ZWJ_FILE src) = Inr m2" and
    m3: "read_emoji_sequences m2 (EMOJI_SEQ_FILE src) = Inr m3" and
    m4: "m' = m3 \<or> (\<exists>file. read_emoji_sequences m3 file = Inr m')"
    by (auto simp: load_emoji_data_map_def split: sum.splits option.splits)
  from intervals_styled [OF m1 assms(2-5)] obtain e where
    e: "map_of m1 (codepoint_to_string [cp]) = Some e" "emoji_style e" by blast
  have "map_of m3 (codepoint_to_string [cp]) = Some e"
    using sequences_keeps [OF m3] sequences_keeps [OF m2] e(1) by blast
  then have "map_of m' (codepoint_to_string [cp]) = Some e"
    using m4 sequences_keeps by blast
  then show ?thesis using e(2) by blast
qed

theorem style_exceptions_are_emoji_style_witness:
  "load_emoji_data_map \<lparr> EMOJI_DATA_FILE = [''# emoji-data'', ''2763..2764 ; Emoji # heart''],
       EMOJI_ZWJ_FILE = [], EMOJI_SEQ_FILE = [''2764 FE0F ; heart''],
       ANDROID_EMOJIS_FILE = None \<rparr> =
     Inr [(''0x2763'', new_EmojiData [0x2763] False), (''0x2764'', new_EmojiData [0x2764] True)] \<and>
   ''2763..2764 ; EMOJI # HEART'' \<in>
     set (read_emoji_lines [''# emoji-data'', ''2763..2764 ; Emoji # heart'']) \<and>
   interval_line ''2763..2764 ; EMOJI # HEART'' = Inr ([0x2763, 0x2764], False) \<and>
   (0x2764 :: int) \<in> set [0x2763, 0x2764] \<and> 0x2764 \<in> set EMOJI_STYLE_EXCEPTIONS \<and>
   (\<exists>e. map_of [(''0x2763'', new_EmojiData [0x2763] False), (''0x2764'', new_EmojiData [0x2764] True)]
           (codepoint_to_string [0x2764]) = Some e \<and> emoji_style e)"
proof -
  let ?src = "\<lparr> EMOJI_DATA_FILE = [''# emoji-data'', ''2763..2764 ; Emoji # heart''],
       EMOJI_ZWJ_FILE = [], EMOJI_SEQ_FILE = [''2764 FE0F ; heart''],
       ANDROID_EMOJIS_FILE = None \<rparr>"
  have h3: "interval_line ''2763..2764 ; EMOJI # HEART'' = Inr ([0x2763, 0x2764], False)"
    by (simp add: interval_line_def py_strip_def is_space_def hex_str_to_int_def py_int_def
        digit_val_def Let_def upto.simps)
  have h2: "''2763..2764 ; EMOJI # HEART'' \<in> set (read_emoji_lines (EMOJI_DATA_FILE ?src))"
    by (simp add: read_emoji_lines_def py_strip_def is_space_def py_upper_def upper_char_def)
  have h1: "load_emoji_data_map ?src =
     Inr [(''0x2763'', new_EmojiData [0x2763] False), (''0x2764'', new_EmojiData [0x2764] True)]"
    by (simp add: load_emoji_data_map_def read_emoji_intervals_def read_emoji_lines_def
        py_strip_def is_space_def py_upper_def upper_char_def read_emoji_intervals_line_def h3
        interval_codepoint_def EMOJI_STYLE_EXCEPTIONS_def
        read_emoji_sequences_def read_emoji_sequences_line_def sequence_codepoints_def
        hex_str_to_int_def py_int_def digit_val_def EMOJI_STYLE_VS_def codepoint_to_string_def
        py_hex_def lower_digit_def nat_digits.simps new_EmojiData_def Let_def)
  have h4: "(0x2764 :: int) \<in> set [0x2763, 0x2764]" by simp
  have h5: "0x2764 \<in> set EMOJI_STYLE_EXCEPTIONS" by (simp add: EMOJI_STYLE_EXCEPTIONS_def)
  from style_exceptions_are_emoji_style [OF h1 h2 h3 h4 h5] h1 h2 h3 h4 h5 show ?thesis by simp
qed

subsection \<open>The format 12 subtable must be there\<close>

lemma update_emoji_data_error:
  "update_emoji_data cps g s = Inl e \<Longrightarrow> e = KeyError g"
  by (auto simp: update_emoji_data_def Let_def split: option.splits)

lemma cmap12_entry_error:
  "cmap12_entry p s = Inl e \<Longrightarrow> \<exists>g. e = KeyError g"
  by (auto simp: cmap12_entry_def split: prod.splits sum.splits dest: update_emoji_data_error)

lemma fold_err_error:
  assumes "fold_err f xs s = Inl e"
  shows "\<exists>x a. x \<in> set xs \<and> f x a = Inl e"
  using assms
proof (induction xs arbitrary: s)
  case Nil
  then show ?case by simp
next
  case (Cons y ys)
  show ?case
  proof (cases "f y s")
    case (Inl e')
    then show ?thesis using Cons.prems by auto
  next
    case (Inr s1)
    then have "fold_err f ys s1 = Inl e" using Cons.prems by simp
    from Cons.IH [OF this] show ?thesis by auto
  qed
qed

lemma cmap12_tables_no_table:
  "(read_and_clear_cmap12_tables tables g2c s = Inl ValueError_cmap12) = (\<forall>t \<in> set tables. \<not> is_cmap12 t)"
proof (induction tables)
  case Nil
  then show ?case by simp
next
  case (Cons t ts)
  show ?case
  proof (cases "is_cmap12 t")
    case True
    have "fold_err cmap12_entry (cmap t) (g2c, s) \<noteq> Inl ValueError_cmap12"
      using fold_err_error cmap12_entry_error by fastforce
    then show ?thesis using True by (auto split: sum.splits)
  next
    case False
    then show ?thesis using Cons.IH by (auto split: sum.splits)
  qed
qed

lemma read_and_clear_cmap12_error_iff:
  "(cmap_tables ttf = None \<longrightarrow> read_and_clear_cmap12 ttf g2c self = Inl (KeyError ''cmap'')) \<and>
   (\<forall>tables. cmap_tables ttf = Some tables \<longrightarrow>
      (read_and_clear_cmap12 ttf g2c self = Inl ValueError_cmap12) =
      (\<forall>t \<in> set tables. \<not> (format t = 12 \<and> platformID t = 3 \<and> platEncID t = 10)))"
proof (intro conjI allI impI)
  assume "cmap_tables ttf = None"
  then show "read_and_clear_cmap12 ttf g2c self = Inl (KeyError ''cmap'')"
    by (simp add: read_and_clear_cmap12_def)
next
  fix tables assume t: "cmap_tables ttf = Some tables"
  have "(read_and_clear_cmap12 ttf g2c self = Inl ValueError_cmap12) =
        (read_and_clear_cmap12_tables tables g2c self = Inl ValueError_cmap12)"
    using t by (auto simp: read_and_clear_cmap12_def split: sum.splits)
  then show "(read_and_clear_cmap12 ttf g2c self = Inl ValueError_cmap12) =
      (\<forall>t \<in> set tables. \<not> (format t = 12 \<and> platformID t = 3 \<and> platEncID t = 10))"
    using cmap12_tables_no_table [of tables g2c self] by (simp add: is_cmap12_def)
qed

subsection \<open>The ligature walk needs every glyph in the side table\<close>

lemma map_state_err_step_succeeds:
  assumes "map_state_err f xs s = Inr r" and "x \<in> set xs"
  shows "\<exists>a b. f x a = Inr b"
  using assms
  by (induction xs arbitrary: s r) (auto split: sum.splits)

lemma map_err_all:
  assumes "map_err f xs = Inr ys" and "x \<in> set xs"
  shows "\<exists>y. f x = Inr y"
  using assms
  by (induction xs arbitrary: ys) (auto split: sum.splits)

lemma read_and_clear_gsub_missing_glyph:
  assumes "GSUB ttf = Some lookups" and "lookup \<in> set lookups"
    and "LigatureSubst ligs \<in> set lookup" and "(name, ls) \<in> set ligs" and "lig \<in> set ls"
    and "x \<in> set (name # Component lig)" and "map_of g2c x = None"
  shows "\<exists>e. read_and_clear_gsub ttf g2c self = Inl e"
proof (rule ccontr)
  assume "\<not> (\<exists>e. read_and_clear_gsub ttf g2c self = Inl e)"
  then obtain r where "read_and_clear_gsub ttf g2c self = Inr r"
    by (cases "read_and_clear_gsub ttf g2c self") auto
  then obtain r1 where "map_state_err (map_state_err (gsub_subtable g2c)) lookups self = Inr r1"
    using assms(1) by (auto simp: read_and_clear_gsub_def split: sum.splits)
  from map_state_err_step_succeeds [OF this assms(2)]
  obtain a1 b1 where "map_state_err (gsub_subtable g2c) lookup a1 = Inr b1" by blast
  from map_state_err_step_succeeds [OF this assms(3)]
  obtain a2 b2 where "gsub_subtable g2c (LigatureSubst ligs) a2 = Inr b2" by blast
  then obtain b3 where
    "fold_err (\<lambda>(name, ls). fold_err (gsub_ligature g2c name) ls) ligs a2 = Inr b3"
    by (auto simp: gsub_subtable_def split: sum.splits)
  from fold_err_step_succeeds [OF this assms(4)]
  obtain a4 b4 where "fold_err (gsub_ligature g2c name) ls a4 = Inr b4" by auto
  from fold_err_step_succeeds [OF this assms(5)]
  obtain a5 b5 where "gsub_ligature g2c name lig a5 = Inr b5" by blast
  then obtain cps where "map_err (glyph_codepoint g2c) (name # Component lig) = Inr cps"
    by (auto simp: gsub_ligature_def Let_def split: sum.splits)
  from map_err_all [OF this assms(6)] show False
    using assms(7) by (simp add: glyph_codepoint_def)
qed


subsection \<open>One call of \<open>update_emoji_data\<close>\<close>

lemma update_emoji_data_cases:
  assumes "update_emoji_data cps g s = Inr s'"
  obtains (absent) "map_of (emoji_data_map s) (codepoint_to_string cps) = None" and "s' = s"
  | (present) e m where "map_of (emoji_data_map s) (codepoint_to_string cps) = Some e"
      and "map_of (glyph_to_image_metrics_map s) g = Some m"
      and "s' = s\<lparr> emoji_data_map :=
                     AList.update (codepoint_to_string cps)
                       (e\<lparr> width := m_width m, height := m_height m,
                          emoji_id := (if emoji_id e = 0 then self_emoji_id s else emoji_id e) \<rparr>)
                       (emoji_data_map s),
                   self_emoji_id := (if emoji_id e = 0 then self_emoji_id s + 1 else self_emoji_id s),
                   remapped_codepoints :=
                     AList.update (if emoji_id e = 0 then self_emoji_id s else emoji_id e) g
                       (remapped_codepoints s) \<rparr>"
  using assms
  by (auto simp: update_emoji_data_def update_metrics_def Let_def split: option.splits if_splits)

text \<open>
  Claim C3 says that a later call for an entry changes neither its id nor its width and
  height. The script keeps the id (it assigns one only while the id is 0) but takes
  width and height from the glyph of every call, as its docstring says. Here the two
  lookups of the example font reach the entry of the flag with two glyphs: the first
  call gives 136 by 128 and the id, the second call leaves the id and gives 72 by 72.
\<close>

theorem later_call_overwrites_metrics:
  "update_emoji_data [0x1F1E6, 0x1F1E8] ''flag1'' example_flag_self =
     Inr (example_flag_self
           \<lparr> emoji_data_map :=
               [(''0x1f1e6 0x1f1e8'',
                 \<lparr> codepoints = [0x1F1E6, 0x1F1E8], emoji_style = False, emoji_id = 0xF0001,
                   width = 136, height = 128, sdk_added = 25, compat_added = 1 \<rparr>)],
             remapped_codepoints := [(0xF0001, ''flag1'')],
             self_emoji_id := 0xF0002 \<rparr>) \<and>
   update_emoji_data [0x1F1E6, 0x1F1E8] ''flag2''
     (example_flag_self
           \<lparr> emoji_data_map :=
               [(''0x1f1e6 0x1f1e8'',
                 \<lparr> codepoints = [0x1F1E6, 0x1F1E8], emoji_style = False, emoji_id = 0xF0001,
                   width = 136, height = 128, sdk_added = 25, compat_added = 1 \<rparr>)],
             remapped_codepoints := [(0xF0001, ''flag1'')],
             self_emoji_id := 0xF0002 \<rparr>) =
     Inr (example_flag_self
           \<lparr> emoji_data_map :=
               [(''0x1f1e6 0x1f1e8'',
                 \<lparr> codepoints = [0x1F1E6, 0x1F1E8], emoji_style = False, emoji_id = 0xF0001,
                   width = 72, height = 72, sdk_added = 25, compat_added = 1 \<rparr>)],
             remapped_codepoints := [(0xF0001, ''flag2'')],
             self_emoji_id := 0xF0002 \<rparr>) \<and>
   walk_calls example_flag_font =
     [([0x1F1E6], ''a''), ([0x1F1E8], ''c''),
      ([0x1F1E6, 0x1F1E8], ''flag1''), ([0x1F1E6, 0x1F1E8], ''flag2'')] \<and>
   map_sum id fst (rewrite_font example_flag_font example_flag_self) =
     Inr (example_flag_self
           \<lparr> emoji_data_map :=
               [(''0x1f1e6 0x1f1e8'',
                 \<lparr> codepoints = [0x1F1E6, 0x1F1E8], emoji_style = False, emoji_id = 0xF0001,
                   width = 72, height = 72, sdk_added = 25, compat_added = 1 \<rparr>)],
             remapped_codepoints := [(0xF0001, ''flag2'')],
             self_emoji_id := 0xF0002 \<rparr>)"
  by (simp add: example_flag_self_def example_flag_font_def update_emoji_data_def
      update_metrics_def codepoint_to_string_def py_hex_def lower_digit_def nat_digits.simps
      new_EmojiData_def SDK_VERSION_def METADATA_VERSION_def Let_def
      walk_calls_def is_cmap12_def cmap12_calls_def side_table_def gsub_rules_def
      subtable_rules_def ligature_call_def glyph_codepoint_def
      rewrite_font_def read_and_clear_cmap12_def cmap12_entry_def read_and_clear_gsub_def
      gsub_subtable_def gsub_ligature_def dict_update_def)

text \<open>
  Claim C3, as the script has it. A successful call leaves every entry under another
  key as it is. The entry under the key of the call keeps its id when that is not 0 and
  gets \<open>self.emoji_id\<close> otherwise; its width and height become those of the glyph of
  this call; its other fields stay.
\<close>

theorem update_emoji_data_first_id_last_metrics:
  assumes "update_emoji_data cps g s = Inr s'"
    and "map_of (emoji_data_map s) k = Some e"
  shows "\<exists>e'. map_of (emoji_data_map s') k = Some e' \<and>
           (k \<noteq> codepoint_to_string cps \<longrightarrow> e' = e) \<and>
           (k = codepoint_to_string cps \<longrightarrow>
              emoji_id e' = (if emoji_id e = 0 then self_emoji_id s else emoji_id e) \<and>
              (\<exists>m. map_of (glyph_to_image_metrics_map s) g = Some m \<and>
                   width e' = m_width m \<and> height e' = m_height m) \<and>
              codepoints e' = codepoints e \<and> emoji_style e' = emoji_style e \<and>
              sdk_added e' = sdk_added e \<and> compat_added e' = compat_added e)"
  using assms(1)
proof (cases rule: update_emoji_data_cases)
  case absent
  then show ?thesis using assms(2) by auto
next
  case (present e0 m)
  then show ?thesis using assms(2) by (auto simp: update_conv')
qed


theorem update_emoji_data_first_id_last_metrics_witness:
  "update_emoji_data [0x1F1E6, 0x1F1E8] ''flag2''
     (example_flag_self
           \<lparr> emoji_data_map :=
               [(''0x1f1e6 0x1f1e8'',
                 \<lparr> codepoints = [0x1F1E6, 0x1F1E8], emoji_style = False, emoji_id = 0xF0001,
                   width = 136, height = 128, sdk_added = 25, compat_added = 1 \<rparr>)],
             remapped_codepoints := [(0xF0001, ''flag1'')],
             self_emoji_id := 0xF0002 \<rparr>) =
     Inr (example_flag_self
           \<lparr> emoji_data_map :=
               [(''0x1f1e6 0x1f1e8'',
                 \<lparr> codepoints = [0x1F1E6, 0x1F1E8], emoji_style = False, emoji_id = 0xF0001,
                   width = 72, height = 72, sdk_added = 25, compat_added = 1 \<rparr>)],
             remapped_codepoints := [(0xF0001, ''flag2'')],
             self_emoji_id := 0xF0002 \<rparr>) \<and>
   (\<exists>e'. map_of [(''0x1f1e6 0x1f1e8'',
                 \<lparr> codepoints = [0x1F1E6, 0x1F1E8], emoji_style = False, emoji_id = 0xF0001,
                   width = 72, height = 72, sdk_added = 25, compat_added = 1 \<rparr>)]
            (codepoint_to_string [0x1F1E6, 0x1F1E8]) = Some e' \<and>
         emoji_id e' = 0xF0001 \<and>
         (\<exists>m. map_of (glyph_to_image_metrics_map example_flag_self) ''flag2'' = Some m \<and>
              width e' = m_width m \<and> height e' = m_height m))"
proof -
  let ?e1 = "\<lparr> codepoints = [0x1F1E6, 0x1F1E8], emoji_style = False, emoji_id = 0xF0001,
                width = 136, height = 128, sdk_added = 25, compat_added = 1 \<rparr>"
  let ?e2 = "\<lparr> codepoints = [0x1F1E6, 0x1F1E8], emoji_style = False, emoji_id = 0xF0001,
                width = 72, height = 72, sdk_added = 25, compat_added = 1 \<rparr>"
  let ?s1 = "example_flag_self
           \<lparr> emoji_data_map := [(''0x1f1e6 0x1f1e8'', ?e1)],
             remapped_codepoints := [(0xF0001, ''flag1'')],
             self_emoji_id := 0xF0002 \<rparr>"
  let ?s2 = "example_flag_self
           \<lparr> emoji_data_map := [(''0x1f1e6 0x1f1e8'', ?e2)],
             remapped_codepoints := [(0xF0001, ''flag2'')],
             self_emoji_id := 0xF0002 \<rparr>"
  have k: "codepoint_to_string [0x1F1E6, 0x1F1E8] = ''0x1f1e6 0x1f1e8''"
    by (simp add: codepoint_to_string_def py_hex_def lower_digit_def nat_digits.simps)
  have h1: "update_emoji_data [0x1F1E6, 0x1F1E8] ''flag2'' ?s1 = Inr ?s2"
    by (simp add: example_flag_self_def update_emoji_data_def update_metrics_def k)
  have h2: "map_of (emoji_data_map ?s1) (codepoint_to_string [0x1F1E6, 0x1F1E8]) = Some ?e1"
    by (simp add: k)
  from update_emoji_data_first_id_last_metrics [OF h1 h2]
  obtain e' where e': "map_of (emoji_data_map ?s2) (codepoint_to_string [0x1F1E6, 0x1F1E8]) = Some e'"
    "emoji_id e' = (if emoji_id ?e1 = 0 then self_emoji_id ?s1 else emoji_id ?e1)"
    "\<exists>m. map_of (glyph_to_image_metrics_map ?s1) ''flag2'' = Some m \<and>
         width e' = m_width m \<and> height e' = m_height m"
    by blast
  from e'(1) have a: "map_of [(''0x1f1e6 0x1f1e8'', ?e2)] (codepoint_to_string [0x1F1E6, 0x1F1E8]) = Some e'"
    by simp
  from e'(2) have b: "emoji_id e' = 0xF0001" by simp
  from e'(3) have c: "\<exists>m. map_of (glyph_to_image_metrics_map example_flag_self) ''flag2'' = Some m \<and>
         width e' = m_width m \<and> height e' = m_height m" by simp
  from a b c have "\<exists>e'. map_of [(''0x1f1e6 0x1f1e8'', ?e2)]
            (codepoint_to_string [0x1F1E6, 0x1F1E8]) = Some e' \<and>
         emoji_id e' = 0xF0001 \<and>
         (\<exists>m. map_of (glyph_to_image_metrics_map example_flag_self) ''flag2'' = Some m \<and>
              width e' = m_width m \<and> height e' = m_height m)" by blast
  then show ?thesis using h1 by simp
qed

subsection \<open>A list of calls of \<open>update_emoji_data\<close>\<close>

lemma fold_err_established_inv:
  assumes "fold_err f xs s = Inr s'" and "x \<in> set xs" and "P s"
    and pres: "\<And>y a b. y \<in> set xs \<Longrightarrow> P a \<Longrightarrow> f y a = Inr b \<Longrightarrow> P b"
    and est: "\<And>a b. P a \<Longrightarrow> f x a = Inr b \<Longrightarrow> Q b"
    and keep: "\<And>y a b. y \<in> set xs \<Longrightarrow> P a \<Longrightarrow> Q a \<Longrightarrow> f y a = Inr b \<Longrightarrow> Q b"
  shows "Q s'"
proof -
  have both: "P s' \<and> Q s'" if "fold_err f ys a = Inr s'" "P a" "Q a" "set ys \<subseteq> set xs" for ys a
    using that
  proof (induction ys arbitrary: a)
    case Nil
    then show ?case by simp
  next
    case (Cons y ys)
    from Cons.prems(1) obtain b where b: "f y a = Inr b" and rest: "fold_err f ys b = Inr s'"
      by (auto split: sum.splits)
    have y: "y \<in> set xs" using Cons.prems(4) by simp
    have "P b" using pres [OF y Cons.prems(2) b] .
    moreover have "Q b" using keep [OF y Cons.prems(2,3) b] .
    ultimately show ?case using Cons.IH [OF rest] Cons.prems(4) by simp
  qed
  have "Q s'" if "fold_err f ys a = Inr s'" "P a" "x \<in> set ys" "set ys \<subseteq> set xs" for ys a
    using that
  proof (induction ys arbitrary: a)
    case Nil
    then show ?case by simp
  next
    case (Cons y ys)
    from Cons.prems(1) obtain b where b: "f y a = Inr b" and rest: "fold_err f ys b = Inr s'"
      by (auto split: sum.splits)
    have y: "y \<in> set xs" and sub: "set ys \<subseteq> set xs" using Cons.prems(4) by simp_all
    have Pb: "P b" using pres [OF y Cons.prems(2) b] .
    show ?case
    proof (cases "x = y")
      case True
      then have "Q b" using est [OF Cons.prems(2)] b by simp
      then show ?thesis using both [OF rest Pb _ sub] by simp
    next
      case False
      then have "x \<in> set ys" using Cons.prems(3) by simp
      then show ?thesis using Cons.IH [OF rest Pb _ sub] by simp
    qed
  qed
  then show ?thesis using assms(1,2,3) by blast
qed

lemma update_emoji_data_next_id:
  assumes "update_emoji_data cps g s = Inr s'" and "0 < self_emoji_id s"
  shows "0 < self_emoji_id s'"
  using assms(1)
  by (cases rule: update_emoji_data_cases) (use assms(2) in auto)

lemma update_emoji_data_entry:
  assumes "update_emoji_data cps g s = Inr s'" and "map_of (emoji_data_map s) k = Some e"
  shows "\<exists>e'. map_of (emoji_data_map s') k = Some e' \<and>
           (k \<noteq> codepoint_to_string cps \<longrightarrow> e' = e) \<and>
           emoji_id e' = (if k = codepoint_to_string cps \<and> emoji_id e = 0
                          then self_emoji_id s else emoji_id e)"
  using assms(1)
proof (cases rule: update_emoji_data_cases)
  case absent
  then show ?thesis using assms(2) by auto
next
  case (present e0 m)
  then show ?thesis using assms(2) by (auto simp: update_conv')
qed

lemma update_emoji_data_absent:
  assumes "update_emoji_data cps g s = Inr s'" and "map_of (emoji_data_map s) k = None"
  shows "map_of (emoji_data_map s') k = None"
  using assms(1)
  by (cases rule: update_emoji_data_cases) (use assms(2) in \<open>auto simp: update_conv'\<close>)

lemma update_emoji_data_records:
  assumes "update_emoji_data cps g s = Inr s'" and "0 < self_emoji_id s"
    and "map_of (emoji_data_map s') (codepoint_to_string cps) = Some e'"
  shows "emoji_id e' \<noteq> 0 \<and> map_of (remapped_codepoints s') (emoji_id e') = Some g"
  using assms(1)
proof (cases rule: update_emoji_data_cases)
  case absent
  then have "map_of (emoji_data_map s') (codepoint_to_string cps) = None" by simp
  then show ?thesis using assms(3) by simp
next
  case (present e0 m)
  then show ?thesis using assms(2,3) by (auto simp: update_conv')
qed

lemma update_emoji_data_remapped:
  assumes "update_emoji_data cps g s = Inr s'" and "0 < self_emoji_id s"
    and "map_of (remapped_codepoints s') i = Some g'"
  shows "map_of (remapped_codepoints s) i = Some g' \<or>
         (g' = g \<and> i \<noteq> 0 \<and>
          (\<exists>e'. map_of (emoji_data_map s') (codepoint_to_string cps) = Some e' \<and> emoji_id e' = i))"
  using assms(1)
proof (cases rule: update_emoji_data_cases)
  case absent
  then show ?thesis using assms(3) by simp
next
  case (present e0 m)
  then show ?thesis using assms(2,3) by (auto simp: update_conv' split: if_splits)
qed

lemma update_emoji_data_remapped_dom:
  assumes "update_emoji_data cps g s = Inr s'" and "map_of (remapped_codepoints s) i \<noteq> None"
  shows "map_of (remapped_codepoints s') i \<noteq> None"
  using assms(1)
  by (cases rule: update_emoji_data_cases) (use assms(2) in \<open>auto simp: update_conv'\<close>)

lemma update_emoji_data_distinct:
  assumes "update_emoji_data cps g s = Inr s'"
  shows "distinct (map fst (remapped_codepoints s)) \<Longrightarrow> distinct (map fst (remapped_codepoints s'))"
    and "distinct (map fst (emoji_data_map s)) \<Longrightarrow> distinct (map fst (emoji_data_map s'))"
    and "glyph_to_image_metrics_map s' = glyph_to_image_metrics_map s"
  using assms(1)
  by (cases rule: update_emoji_data_cases; simp add: distinct_update)+


lemma update_calls_next_id:
  assumes "update_calls calls s = Inr s'" and "0 < self_emoji_id s"
  shows "0 < self_emoji_id s'"
  using assms unfolding update_calls_def
  by (rule fold_err_invariant) (auto dest: update_emoji_data_next_id)

lemma update_calls_unvisited:
  assumes "update_calls calls s = Inr s'"
    and "\<forall>(cps, g) \<in> set calls. codepoint_to_string cps \<noteq> k"
  shows "map_of (emoji_data_map s') k = map_of (emoji_data_map s) k"
proof -
  have "map_of (emoji_data_map s') k = map_of (emoji_data_map s) k"
    using assms(1) unfolding update_calls_def
  proof (rule fold_err_invariant)
    show "map_of (emoji_data_map s) k = map_of (emoji_data_map s) k" by simp
  next
    fix x a b
    assume x: "x \<in> set calls" and a: "map_of (emoji_data_map a) k = map_of (emoji_data_map s) k"
      and step: "(case x of (cps, g) \<Rightarrow> update_emoji_data cps g) a = Inr b"
    obtain cps g where xg: "x = (cps, g)" by (cases x)
    then have ne: "k \<noteq> codepoint_to_string cps" using assms(2) x by auto
    have st: "update_emoji_data cps g a = Inr b" using step xg by simp
    have "map_of (emoji_data_map b) k = map_of (emoji_data_map a) k"
    proof (cases "map_of (emoji_data_map a) k")
      case None
      then show ?thesis using update_emoji_data_absent [OF st] by simp
    next
      case (Some e)
      then show ?thesis using update_emoji_data_entry [OF st Some] ne by auto
    qed
    then show "map_of (emoji_data_map b) k = map_of (emoji_data_map s) k" using a by simp
  qed
  then show ?thesis .
qed

lemma update_calls_entry:
  assumes "update_calls calls s = Inr s'"
  shows "(map_of (emoji_data_map s) k = None \<longrightarrow> map_of (emoji_data_map s') k = None) \<and>
         (\<forall>e. map_of (emoji_data_map s) k = Some e \<longrightarrow>
            (\<exists>e'. map_of (emoji_data_map s') k = Some e' \<and>
                  (emoji_id e \<noteq> 0 \<longrightarrow> emoji_id e' = emoji_id e)))"
  using assms unfolding update_calls_def
proof (induction calls arbitrary: s)
  case Nil
  then show ?case by simp
next
  case (Cons c calls)
  obtain cps g where c: "c = (cps, g)" by (cases c)
  from Cons.prems obtain a where st: "update_emoji_data cps g s = Inr a"
    and rest: "fold_err (\<lambda>(cps, g). update_emoji_data cps g) calls a = Inr s'"
    using c by (auto split: sum.splits)
  note IH = Cons.IH [OF rest]
  show ?case
  proof (intro conjI allI impI)
    assume "map_of (emoji_data_map s) k = None"
    then have "map_of (emoji_data_map a) k = None" by (rule update_emoji_data_absent [OF st])
    then show "map_of (emoji_data_map s') k = None" using IH by blast
  next
    fix e assume e: "map_of (emoji_data_map s) k = Some e"
    from update_emoji_data_entry [OF st e] obtain e1 where
      e1: "map_of (emoji_data_map a) k = Some e1"
      and id1: "emoji_id e1 = (if k = codepoint_to_string cps \<and> emoji_id e = 0
                               then self_emoji_id s else emoji_id e)" by blast
    from IH e1 obtain e' where e': "map_of (emoji_data_map s') k = Some e'"
      and id': "emoji_id e1 \<noteq> 0 \<longrightarrow> emoji_id e' = emoji_id e1" by blast
    show "\<exists>e'. map_of (emoji_data_map s') k = Some e' \<and>
                (emoji_id e \<noteq> 0 \<longrightarrow> emoji_id e' = emoji_id e)"
      using e' id' id1 by auto
  qed
qed

lemma update_calls_visited:
  assumes "update_calls calls s = Inr s'" and "0 < self_emoji_id s"
    and "(cps, g) \<in> set calls"
    and "map_of (emoji_data_map s') (codepoint_to_string cps) = Some e'"
  shows "emoji_id e' \<noteq> 0 \<and> map_of (remapped_codepoints s') (emoji_id e') \<noteq> None"
proof -
  let ?k = "codepoint_to_string cps"
  let ?Q = "\<lambda>a. \<forall>e'. map_of (emoji_data_map a) ?k = Some e' \<longrightarrow>
                emoji_id e' \<noteq> 0 \<and> map_of (remapped_codepoints a) (emoji_id e') \<noteq> None"
  have "?Q s'"
    using assms(1) [unfolded update_calls_def] assms(3)
  proof (rule fold_err_established_inv [where P = "\<lambda>a. 0 < self_emoji_id a"])
    show "0 < self_emoji_id s" by (rule assms(2))
  next
    fix y a b
    assume "0 < self_emoji_id a" "(case y of (cps, g) \<Rightarrow> update_emoji_data cps g) a = Inr b"
    then show "0 < self_emoji_id b" by (cases y) (auto dest: update_emoji_data_next_id)
  next
    fix a b
    assume "0 < self_emoji_id a" "(case (cps, g) of (cps, g) \<Rightarrow> update_emoji_data cps g) a = Inr b"
    then show "?Q b" using update_emoji_data_records [of cps g a b] by auto
  next
    fix y a b
    assume Qa: "?Q a" and step: "(case y of (cps, g) \<Rightarrow> update_emoji_data cps g) a = Inr b"
    obtain cps2 g2 where y: "y = (cps2, g2)" by (cases y)
    then have st: "update_emoji_data cps2 g2 a = Inr b" using step by simp
    show "?Q b"
    proof (intro allI impI)
      fix e1 assume e1: "map_of (emoji_data_map b) ?k = Some e1"
      have "map_of (emoji_data_map a) ?k \<noteq> None"
        using update_emoji_data_absent [OF st, of ?k] e1 by auto
      then obtain e0 where e0: "map_of (emoji_data_map a) ?k = Some e0" by auto
      then have n0: "emoji_id e0 \<noteq> 0" and r0: "map_of (remapped_codepoints a) (emoji_id e0) \<noteq> None"
        using Qa by auto
      from update_emoji_data_entry [OF st e0] e1 n0 have "emoji_id e1 = emoji_id e0" by auto
      then show "emoji_id e1 \<noteq> 0 \<and> map_of (remapped_codepoints b) (emoji_id e1) \<noteq> None"
        using n0 update_emoji_data_remapped_dom [OF st r0] by simp
    qed
  qed
  then show ?thesis using assms(4) by blast
qed

lemma update_calls_remapped:
  assumes "update_calls calls s = Inr s'" and "0 < self_emoji_id s"
    and "remapped_codepoints s = []"
    and "map_of (remapped_codepoints s') i = Some g"
  shows "i \<noteq> 0 \<and> (\<exists>cps e. (cps, g) \<in> set calls \<and>
           map_of (emoji_data_map s') (codepoint_to_string cps) = Some e \<and> emoji_id e = i)"
proof -
  let ?J = "\<lambda>a. \<forall>i g. map_of (remapped_codepoints a) i = Some g \<longrightarrow>
               i \<noteq> 0 \<and> (\<exists>cps e. (cps, g) \<in> set calls \<and>
                 map_of (emoji_data_map a) (codepoint_to_string cps) = Some e \<and> emoji_id e = i)"
  let ?P = "\<lambda>a. 0 < self_emoji_id a \<and> ?J a"
  have "?P s'"
    using assms(1) [unfolded update_calls_def]
  proof (rule fold_err_invariant)
    show "?P s" using assms(2,3) by simp
  next
    fix y a b
    assume y: "y \<in> set calls" and Pa: "?P a"
      and step: "(case y of (cps, g) \<Rightarrow> update_emoji_data cps g) a = Inr b"
    obtain cps2 g2 where yy: "y = (cps2, g2)" by (cases y)
    then have st: "update_emoji_data cps2 g2 a = Inr b" using step by simp
    have pos: "0 < self_emoji_id a" using Pa by simp
    have "?J b"
    proof (intro allI impI)
      fix i g' assume m: "map_of (remapped_codepoints b) i = Some g'"
      from update_emoji_data_remapped [OF st pos m]
      show "i \<noteq> 0 \<and> (\<exists>cps e. (cps, g') \<in> set calls \<and>
              map_of (emoji_data_map b) (codepoint_to_string cps) = Some e \<and> emoji_id e = i)"
      proof
        assume "map_of (remapped_codepoints a) i = Some g'"
        then obtain cps e where i0: "i \<noteq> 0" and c: "(cps, g') \<in> set calls"
          and e: "map_of (emoji_data_map a) (codepoint_to_string cps) = Some e" "emoji_id e = i"
          using Pa by blast
        from update_emoji_data_entry [OF st e(1)] obtain e1 where
          "map_of (emoji_data_map b) (codepoint_to_string cps) = Some e1" "emoji_id e1 = i"
          using e(2) i0 by auto
        then show ?thesis using i0 c by blast
      next
        assume "g' = g2 \<and> i \<noteq> 0 \<and>
          (\<exists>e'. map_of (emoji_data_map b) (codepoint_to_string cps2) = Some e' \<and> emoji_id e' = i)"
        then show ?thesis using y yy by blast
      qed
    qed
    then show "?P b" using update_emoji_data_next_id [OF st pos] by simp
  qed
  then show ?thesis using assms(4) by blast
qed


lemma update_calls_distinct_keys:
  assumes "update_calls calls s = Inr s'" and "distinct (map fst (emoji_data_map s))"
  shows "distinct (map fst (emoji_data_map s'))"
  using assms unfolding update_calls_def
  by (rule fold_err_invariant) (auto dest: update_emoji_data_distinct(2))


subsection \<open>The two walks are a list of calls\<close>

lemma update_calls_append:
  "update_calls (xs @ ys) s =
     (case update_calls xs s of Inl e \<Rightarrow> Inl e | Inr a \<Rightarrow> update_calls ys a)"
  unfolding update_calls_def by (rule fold_err_append)

lemma map_err_append:
  "map_err f (xs @ ys) =
     (case map_err f xs of
        Inl e \<Rightarrow> Inl e
      | Inr as \<Rightarrow> (case map_err f ys of Inl e \<Rightarrow> Inl e | Inr bs \<Rightarrow> Inr (as @ bs)))"
  by (induction xs) (auto split: sum.splits)

lemma walked_append:
  assumes "\<exists>calls. map_err f xs = Inr calls \<and> update_calls calls s = Inr a"
    and "\<exists>calls. map_err f ys = Inr calls \<and> update_calls calls a = Inr s'"
  shows "\<exists>calls. map_err f (xs @ ys) = Inr calls \<and> update_calls calls s = Inr s'"
proof -
  from assms obtain c1 c2 where
    c1: "map_err f xs = Inr c1" "update_calls c1 s = Inr a" and
    c2: "map_err f ys = Inr c2" "update_calls c2 a = Inr s'" by blast
  have "map_err f (xs @ ys) = Inr (c1 @ c2)" using c1(1) c2(1) by (simp add: map_err_append)
  moreover have "update_calls (c1 @ c2) s = Inr s'" using c1(2) c2(2) by (simp add: update_calls_append)
  ultimately show ?thesis by blast
qed

lemma cmap12_entry_pair:
  "cmap12_entry (cp, g) (g2c, s) =
     (case update_emoji_data [cp] g s of
        Inl e \<Rightarrow> Inl e
      | Inr s' \<Rightarrow> Inr (AList.update g cp g2c, s'))"
  by (simp add: cmap12_entry_def)

lemma cmap12_entries_walked:
  assumes "fold_err cmap12_entry pairs (g2c, s) = Inr (g2c', s')"
  shows "g2c' = side_table pairs g2c \<and> update_calls (cmap12_calls pairs) s = Inr s'"
  using assms
proof (induction pairs arbitrary: g2c s)
  case Nil
  then show ?case by (simp add: side_table_def update_calls_def cmap12_calls_def)
next
  case (Cons p pairs)
  obtain cp g where p: "p = (cp, g)" by (cases p)
  from Cons.prems obtain a where st: "update_emoji_data [cp] g s = Inr a"
    and rest: "fold_err cmap12_entry pairs (AList.update g cp g2c, a) = Inr (g2c', s')"
    using p by (auto simp: cmap12_entry_pair split: sum.splits)
  from Cons.IH [OF rest] st p show ?case
    by (simp add: side_table_def update_calls_def cmap12_calls_def)
qed

lemma cmap12_tables_walked:
  assumes "read_and_clear_cmap12_tables tables g2c s = Inr (s', g2c', tables', i)"
  shows "i < length tables \<and> find is_cmap12 tables = Some (tables ! i) \<and>
         tables' = tables[i := (tables ! i)\<lparr> cmap := [] \<rparr>] \<and>
         g2c' = side_table (cmap (tables ! i)) g2c \<and>
         update_calls (cmap12_calls (cmap (tables ! i))) s = Inr s'"
  using assms
proof (induction tables arbitrary: tables' i)
  case Nil
  then show ?case by simp
next
  case (Cons t ts)
  show ?case
  proof (cases "is_cmap12 t")
    case True
    with Cons.prems have f: "fold_err cmap12_entry (cmap t) (g2c, s) = Inr (g2c', s')"
      and r: "tables' = t\<lparr> cmap := [] \<rparr> # ts" "i = 0"
      by (auto split: sum.splits)
    from cmap12_entries_walked [OF f] r True show ?thesis by simp
  next
    case False
    with Cons.prems obtain ts' j where
      rec: "read_and_clear_cmap12_tables ts g2c s = Inr (s', g2c', ts', j)"
      and r: "tables' = t # ts'" "i = Suc j"
      by (auto split: sum.splits)
    from Cons.IH [OF rec] r False show ?thesis by simp
  qed
qed

lemma gsub_ligatures_walked:
  assumes "fold_err (gsub_ligature g2c name) ls s = Inr s'"
  shows "\<exists>calls. map_err (ligature_call g2c) (map (Pair name) ls) = Inr calls \<and>
           update_calls calls s = Inr s'"
  using assms
proof (induction ls arbitrary: s)
  case Nil
  then show ?case by (simp add: update_calls_def)
next
  case (Cons l ls)
  from Cons.prems obtain a where st: "gsub_ligature g2c name l s = Inr a"
    and rest: "fold_err (gsub_ligature g2c name) ls a = Inr s'"
    by (auto split: sum.splits)
  from st obtain cps where cps: "map_err (glyph_codepoint g2c) (name # Component l) = Inr cps"
    and up: "update_emoji_data cps (LigGlyph l) s = Inr a"
    by (auto simp: gsub_ligature_def Let_def split: sum.splits)
  have "\<exists>calls. map_err (ligature_call g2c) [(name, l)] = Inr calls \<and> update_calls calls s = Inr a"
    using cps up by (simp add: ligature_call_def update_calls_def)
  from walked_append [OF this Cons.IH [OF rest]] show ?case by simp
qed

lemma gsub_names_walked:
  assumes "fold_err (\<lambda>(name, ls). fold_err (gsub_ligature g2c name) ls) ligs s = Inr s'"
  shows "\<exists>calls. map_err (ligature_call g2c)
                   (concat (map (\<lambda>(name, ls). map (Pair name) ls) ligs)) = Inr calls \<and>
           update_calls calls s = Inr s'"
  using assms
proof (induction ligs arbitrary: s)
  case Nil
  then show ?case by (simp add: update_calls_def)
next
  case (Cons p ligs)
  obtain name ls where p: "p = (name, ls)" by (cases p)
  from Cons.prems obtain a where st: "fold_err (gsub_ligature g2c name) ls s = Inr a"
    and rest: "fold_err (\<lambda>(name, ls). fold_err (gsub_ligature g2c name) ls) ligs a = Inr s'"
    using p by (auto split: sum.splits)
  from walked_append [OF gsub_ligatures_walked [OF st] Cons.IH [OF rest]] p show ?case by simp
qed

lemma gsub_subtable_walked:
  assumes "gsub_subtable g2c st s = Inr (s', st')"
  shows "\<exists>calls. map_err (ligature_call g2c) (subtable_rules st) = Inr calls \<and>
           update_calls calls s = Inr s'"
proof (cases st)
  case (LigatureSubst ligs)
  with assms have "fold_err (\<lambda>(name, ls). fold_err (gsub_ligature g2c name) ls) ligs s = Inr s'"
    by (auto simp: gsub_subtable_def split: sum.splits)
  from gsub_names_walked [OF this] LigatureSubst show ?thesis by (simp add: subtable_rules_def)
next
  case OtherSubst
  with assms show ?thesis by (simp add: gsub_subtable_def)
qed

lemma gsub_lookup_walked:
  assumes "map_state_err (gsub_subtable g2c) lookup s = Inr (s', lookup')"
  shows "\<exists>calls. map_err (ligature_call g2c) (concat (map subtable_rules lookup)) = Inr calls \<and>
           update_calls calls s = Inr s'"
  using assms
proof (induction lookup arbitrary: s lookup')
  case Nil
  then show ?case by (simp add: update_calls_def)
next
  case (Cons st sts)
  from Cons.prems obtain a st' sts' where st: "gsub_subtable g2c st s = Inr (a, st')"
    and rest: "map_state_err (gsub_subtable g2c) sts a = Inr (s', sts')"
    by (auto split: sum.splits)
  from walked_append [OF gsub_subtable_walked [OF st] Cons.IH [OF rest]] show ?case by simp
qed

lemma gsub_lookups_walked:
  assumes "map_state_err (map_state_err (gsub_subtable g2c)) lookups s = Inr (s', lookups')"
  shows "\<exists>calls. map_err (ligature_call g2c) (gsub_rules lookups) = Inr calls \<and>
           update_calls calls s = Inr s'"
  using assms
proof (induction lookups arbitrary: s lookups')
  case Nil
  then show ?case by (simp add: update_calls_def gsub_rules_def)
next
  case (Cons l ls)
  from Cons.prems obtain a l' ls' where st: "map_state_err (gsub_subtable g2c) l s = Inr (a, l')"
    and rest: "map_state_err (map_state_err (gsub_subtable g2c)) ls a = Inr (s', ls')"
    by (auto split: sum.splits)
  from walked_append [OF gsub_lookup_walked [OF st] Cons.IH [OF rest]] show ?case
    by (simp add: gsub_rules_def)
qed



lemma rewrite_font_walked:
  assumes "rewrite_font ttf s = Inr (s', ttf')"
  shows "update_calls (walk_calls ttf) s = Inr s' \<and>
         (\<exists>tables i. cmap_tables ttf = Some tables \<and> i < length tables \<and>
            is_cmap12 (tables ! i) \<and>
            cmap_tables ttf' =
              Some (tables[i := (tables ! i)\<lparr> cmap := dict_update [] (remapped_codepoints s') \<rparr>]))"
proof -
  from assms obtain s1 g2c ttf1 i ttf2 where
    c: "read_and_clear_cmap12 ttf [] s = Inr (s1, g2c, ttf1, i)" and
    g: "read_and_clear_gsub ttf1 g2c s1 = Inr (s', ttf2)" and
    t': "ttf' = ttf2\<lparr> cmap_tables :=
                      map_option
                        (\<lambda>tables. tables[i := (tables ! i)\<lparr> cmap :=
                                     dict_update (cmap (tables ! i)) (remapped_codepoints s') \<rparr>])
                        (cmap_tables ttf2) \<rparr>"
    by (auto simp: rewrite_font_def split: sum.splits prod.splits)
  from c obtain tables tables1 where tabs: "cmap_tables ttf = Some tables"
    and ct: "read_and_clear_cmap12_tables tables [] s = Inr (s1, g2c, tables1, i)"
    and ttf1: "ttf1 = ttf\<lparr> cmap_tables := Some tables1 \<rparr>"
    by (auto simp: read_and_clear_cmap12_def split: option.splits sum.splits)
  from cmap12_tables_walked [OF ct] have
    i: "i < length tables" and f: "find is_cmap12 tables = Some (tables ! i)" and
    t1: "tables1 = tables[i := (tables ! i)\<lparr> cmap := [] \<rparr>]" and
    g2c: "g2c = side_table (cmap (tables ! i)) []" and
    w1: "update_calls (cmap12_calls (cmap (tables ! i))) s = Inr s1" by simp_all
  from g obtain lookups lookups' where lk: "GSUB ttf1 = Some lookups"
    and ms: "map_state_err (map_state_err (gsub_subtable g2c)) lookups s1 = Inr (s', lookups')"
    and ttf2: "ttf2 = ttf1\<lparr> GSUB := Some lookups' \<rparr>"
    by (auto simp: read_and_clear_gsub_def split: option.splits sum.splits)
  from gsub_lookups_walked [OF ms] obtain calls where
    calls: "map_err (ligature_call g2c) (gsub_rules lookups) = Inr calls"
    and w2: "update_calls calls s1 = Inr s'" by blast
  have lk0: "GSUB ttf = Some lookups" using lk ttf1 by simp
  have wc: "walk_calls ttf = cmap12_calls (cmap (tables ! i)) @ calls"
    using tabs f lk0 calls g2c by (simp add: walk_calls_def)
  have "update_calls (walk_calls ttf) s = Inr s'"
    using w1 w2 wc by (simp add: update_calls_append)
  moreover have "is_cmap12 (tables ! i)" using f by (auto dest: find_Some_iff [THEN iffD1])
  moreover have "cmap_tables ttf' =
      Some (tables[i := (tables ! i)\<lparr> cmap := dict_update [] (remapped_codepoints s') \<rparr>])"
    using t' ttf2 ttf1 t1 i by simp
  ultimately show ?thesis using tabs i by blast
qed


subsection \<open>The steps of \<open>create_font\<close>\<close>

lemma cbdt_strike_keeps:
  "emoji_data_map (fold (\<lambda>(key, data_metrics) self'.
       self'\<lparr> glyph_to_image_metrics_map :=
                AList.update key data_metrics (glyph_to_image_metrics_map self') \<rparr>) strike a) =
     emoji_data_map a \<and>
   remapped_codepoints (fold (\<lambda>(key, data_metrics) self'.
       self'\<lparr> glyph_to_image_metrics_map :=
                AList.update key data_metrics (glyph_to_image_metrics_map self') \<rparr>) strike a) =
     remapped_codepoints a \<and>
   self_emoji_id (fold (\<lambda>(key, data_metrics) self'.
       self'\<lparr> glyph_to_image_metrics_map :=
                AList.update key data_metrics (glyph_to_image_metrics_map self') \<rparr>) strike a) =
     self_emoji_id a"
  by (induction strike arbitrary: a) (simp_all add: case_prod_beta)


lemma read_cbdt_keeps:
  assumes "read_cbdt ttf s = Inr s'"
  shows "emoji_data_map s' = emoji_data_map s \<and> remapped_codepoints s' = remapped_codepoints s \<and>
         self_emoji_id s' = self_emoji_id s"
proof -
  have outer: "emoji_data_map (fold (\<lambda>strike_data. fold (\<lambda>(key, data_metrics) self'.
                        self'\<lparr> glyph_to_image_metrics_map :=
                                 AList.update key data_metrics (glyph_to_image_metrics_map self') \<rparr>)
                      strike_data) strikes a) = emoji_data_map a \<and>
     remapped_codepoints (fold (\<lambda>strike_data. fold (\<lambda>(key, data_metrics) self'.
                        self'\<lparr> glyph_to_image_metrics_map :=
                                 AList.update key data_metrics (glyph_to_image_metrics_map self') \<rparr>)
                      strike_data) strikes a) = remapped_codepoints a \<and>
     self_emoji_id (fold (\<lambda>strike_data. fold (\<lambda>(key, data_metrics) self'.
                        self'\<lparr> glyph_to_image_metrics_map :=
                                 AList.update key data_metrics (glyph_to_image_metrics_map self') \<rparr>)
                      strike_data) strikes a) = self_emoji_id a" for strikes a
    by (induction strikes arbitrary: a) (simp_all add: cbdt_strike_keeps)
  from assms obtain strikes where c: "CBDT ttf = Some strikes"
    by (cases "CBDT ttf") (simp_all add: read_cbdt_def)
  have "s' = fold (\<lambda>strike_data. fold (\<lambda>(key, data_metrics) self'.
                        self'\<lparr> glyph_to_image_metrics_map :=
                                 AList.update key data_metrics (glyph_to_image_metrics_map self') \<rparr>)
                      strike_data) strikes s"
    using assms c by (simp add: read_cbdt_def)
  then show ?thesis by (simp only: outer)
qed


lemma load_previous_row_cases:
  assumes "load_previous_row row (m, n) = Inr (m', n')"
  obtains (comment) r0 rest where "row = r0 # rest" and "take 1 r0 = ''#''" and "m' = m" and "n' = n"
  | (data) r0 r1 r2 r3 new_id new_sdk new_compat cps where
      "row = r0 # r1 # r2 # r3" and "take 1 r0 \<noteq> ''#''" and
      "hex_str_to_int r0 = Inr new_id" and "py_int 10 r1 = Inr new_sdk" and
      "py_int 10 r2 = Inr new_compat" and "map_err hex_str_to_int r3 = Inr cps" and
      "case map_of m (codepoint_to_string cps) of
         None \<Rightarrow> m' = m \<and> n' = n
       | Some e \<Rightarrow>
           m' = AList.update (codepoint_to_string cps) (update e new_id new_sdk new_compat) m \<and>
           n' = (if new_id \<ge> n then new_id + 1 else n)"
proof (cases row)
  case Nil
  then show ?thesis using assms by (simp add: load_previous_row_def)
next
  case (Cons r0 rest)
  show ?thesis
  proof (cases "take 1 r0 = ''#''")
    case True
    then show ?thesis using assms Cons comment by (simp add: load_previous_row_def)
  next
    case False
    from assms Cons False obtain new_id where i: "hex_str_to_int r0 = Inr new_id"
      by (cases "hex_str_to_int r0") (simp_all add: load_previous_row_def)
    from assms Cons False i obtain r1 rest1 where r1: "rest = r1 # rest1"
      by (cases rest) (simp_all add: load_previous_row_def)
    from assms Cons False i r1 obtain new_sdk where s: "py_int 10 r1 = Inr new_sdk"
      by (cases "py_int 10 r1") (simp_all add: load_previous_row_def)
    from assms Cons False i r1 s obtain r2 r3 where r2: "rest1 = r2 # r3"
      by (cases rest1) (simp_all add: load_previous_row_def)
    from assms Cons False i r1 s r2 obtain new_compat where c: "py_int 10 r2 = Inr new_compat"
      by (cases "py_int 10 r2") (simp_all add: load_previous_row_def)
    from assms Cons False i r1 s r2 c obtain cps where k: "map_err hex_str_to_int r3 = Inr cps"
      by (cases "map_err hex_str_to_int r3") (simp_all add: load_previous_row_def)
    have "case map_of m (codepoint_to_string cps) of
         None \<Rightarrow> m' = m \<and> n' = n
       | Some e \<Rightarrow>
           m' = AList.update (codepoint_to_string cps) (update e new_id new_sdk new_compat) m \<and>
           n' = (if new_id \<ge> n then new_id + 1 else n)"
      using assms Cons False i r1 s r2 c k
      by (auto simp: load_previous_row_def Let_def update_def split: option.splits if_splits)
    then show ?thesis using data Cons False i r1 s r2 c k by blast
  qed
qed



lemma create_font_steps:
  assumes "create_font src snapshot ttf self0 = Inr r"
  obtains m0 m1 n s2 where
    "load_emoji_data_map src = Inr m0"
    "load_previous_metadata m0 snapshot = Inr (m1, n)"
    "read_cbdt (ttf\<lparr> fontRevision := METADATA_VERSION \<rparr>)
       (self0\<lparr> emoji_data_map := m1, self_emoji_id := n \<rparr>) = Inr s2"
    "rewrite_font (ttf\<lparr> fontRevision := METADATA_VERSION \<rparr>) s2 = Inr (res_self r, res_ttf r)"
    "res_json r = fst (write_metadata_json (res_self r))"
    "res_count r = snd (write_metadata_json (res_self r))"
    "res_csv r = write_metadata_csv (res_self r)"
  using assms
  by (auto simp: create_font_def Let_def split: sum.splits prod.splits)

lemma walk_calls_fontRevision: "walk_calls (ttf\<lparr> fontRevision := v \<rparr>) = walk_calls ttf"
  by (simp add: walk_calls_def split: option.splits)

subsection \<open>The format 12 subtable after the rewriting\<close>

text \<open>The definitions that running \<open>create_font\<close> on an example unfolds.\<close>

lemmas run_defs =
  create_font_def load_emoji_data_map_def read_emoji_intervals_def read_emoji_lines_def
  py_strip_def is_space_def py_upper_def upper_char_def read_emoji_intervals_line_def
  interval_line_def interval_codepoint_def EMOJI_STYLE_EXCEPTIONS_def
  read_emoji_sequences_def hex_str_to_int_def py_int_def digit_val_def
  codepoint_to_string_def py_hex_def lower_digit_def nat_digits.simps new_EmojiData_def
  SDK_VERSION_def METADATA_VERSION_def DEFAULT_EMOJI_ID_def Let_def upto.simps
  load_previous_metadata_def load_previous_row_def update_def init_creator_def
  read_cbdt_def rewrite_font_def read_and_clear_cmap12_def is_cmap12_def cmap12_entry_def
  update_emoji_data_def update_metrics_def read_and_clear_gsub_def dict_update_def
  write_metadata_json_def write_metadata_csv_def create_json_element_def create_txt_row_def
  to_hex_def py_str_def upper_digit_def


subsection \<open>The two outputs\<close>

lemma json_loop:
  "fold (\<lambda>emoji_data (elements, total_emoji_count).
           (elements @ [create_json_element emoji_data], total_emoji_count + 1)) es (acc, k) =
     (acc @ map create_json_element es, k + int (length es))"
  by (induction es arbitrary: acc k) simp_all

lemma csv_loop:
  "fold (\<lambda>emoji_data rows. rows @ [create_txt_row emoji_data]) es acc =
     acc @ map create_txt_row es"
  by (induction es arbitrary: acc) simp_all

lemma write_metadata_json_eq:
  "write_metadata_json self =
     (\<lparr> json_version = METADATA_VERSION,
        json_list = map create_json_element (sort_key emoji_id (map snd (emoji_data_map self))) \<rparr>,
      int (length (emoji_data_map self)))"
  by (simp add: write_metadata_json_def json_loop Let_def)

lemma write_metadata_csv_eq:
  "write_metadata_csv self =
     [''#id'', ''sdkAdded'', ''compatAdded'', ''codepoints''] #
       map create_txt_row (sort_key emoji_id (map snd (emoji_data_map self)))"
  by (simp add: write_metadata_csv_def csv_loop Let_def)

lemma interval_codepoint_ids:
  assumes "\<forall>k e. map_of m k = Some e \<longrightarrow> emoji_id e = 0"
  shows "\<forall>k e. map_of (interval_codepoint style cp m) k = Some e \<longrightarrow> emoji_id e = 0"
  using assms
  by (auto simp: interval_codepoint_def Let_def update_conv' new_EmojiData_def
      split: option.splits if_splits)

lemma intervals_ids:
  assumes "read_emoji_intervals m file = Inr m'"
    and "\<forall>k e. map_of m k = Some e \<longrightarrow> emoji_id e = 0"
  shows "\<forall>k e. map_of m' k = Some e \<longrightarrow> emoji_id e = 0"
  using assms unfolding read_emoji_intervals_def
proof (rule fold_err_invariant)
  fix x a b
  assume a: "\<forall>k e. map_of a k = Some e \<longrightarrow> emoji_id e = 0"
    and st: "read_emoji_intervals_line x a = Inr b"
  from st obtain cps style where "b = fold (interval_codepoint style) cps a"
    by (auto simp: read_emoji_intervals_line_def split: sum.splits)
  then show "\<forall>k e. map_of b k = Some e \<longrightarrow> emoji_id e = 0"
    using fold_invariant [of "\<lambda>r. \<forall>k e. map_of r k = Some e \<longrightarrow> emoji_id e = 0" a cps
        "interval_codepoint style"] a interval_codepoint_ids by blast
qed

lemma sequences_ids:
  assumes "read_emoji_sequences m file = Inr m'"
    and "\<forall>k e. map_of m k = Some e \<longrightarrow> emoji_id e = 0"
  shows "\<forall>k e. map_of m' k = Some e \<longrightarrow> emoji_id e = 0"
proof (intro allI impI)
  fix k e assume "map_of m' k = Some e"
  from sequences_new [OF assms(1) this] show "emoji_id e = 0"
    using assms(2) by (auto simp: new_EmojiData_def)
qed

lemma load_emoji_data_map_ids:
  assumes "load_emoji_data_map src = Inr m"
  shows "\<forall>k e. map_of m k = Some e \<longrightarrow> emoji_id e = 0"
proof -
  from assms obtain m1 m2 m3 where
    m1: "read_emoji_intervals [] (EMOJI_DATA_FILE src) = Inr m1" and
    m2: "read_emoji_sequences m1 (EMOJI_ZWJ_FILE src) = Inr m2" and
    m3: "read_emoji_sequences m2 (EMOJI_SEQ_FILE src) = Inr m3" and
    m4: "m = m3 \<or> (\<exists>file. read_emoji_sequences m3 file = Inr m)"
    by (auto simp: load_emoji_data_map_def split: sum.splits option.splits)
  have "\<forall>k e. map_of m1 k = Some e \<longrightarrow> emoji_id e = 0"
    by (rule intervals_ids [OF m1]) simp
  then have "\<forall>k e. map_of m3 k = Some e \<longrightarrow> emoji_id e = 0"
    using sequences_ids [OF m2] sequences_ids [OF m3] by blast
  then show ?thesis using m4 sequences_ids by blast
qed

text \<open>
  Claim C1 says that an entry without a glyph is in neither output. The script writes
  every entry of the registry; neither \<open>write_metadata_json\<close> nor
  \<open>write_metadata_csv\<close> looks at the id. Here the font has no glyph for the second
  emoji: it is the first record of both outputs, with the id 0.
\<close>

theorem unassigned_entry_is_written:
  "map_sum id res_csv (create_font example_sources None example_font init_creator) =
     Inr [[''#id'', ''sdkAdded'', ''compatAdded'', ''codepoints''],
          [''0'', ''25'', ''1'', ''1F601''],
          [''F0001'', ''25'', ''1'', ''1F600'']] \<and>
   map_sum id (json_list \<circ> res_json) (create_font example_sources None example_font init_creator) =
     Inr [\<lparr> json_id = 0, json_emojiStyle = False, json_sdkAdded = 25, json_compatAdded = 1,
             json_width = 0, json_height = 0, json_codepoints = [0x1F601] \<rparr>,
          \<lparr> json_id = 0xF0001, json_emojiStyle = False, json_sdkAdded = 25, json_compatAdded = 1,
             json_width = 136, json_height = 128, json_codepoints = [0x1F600] \<rparr>] \<and>
   walk_calls example_font = [([0x1F600], ''grin'')]"
  by (simp add: example_sources_def example_font_def run_defs
      walk_calls_def cmap12_calls_def side_table_def gsub_rules_def)

text \<open>
  Claim C1, as the script has it. Both outputs list the same entries in the same order:
  all entries of the registry, sorted by id (the header row first in the snapshot).
  The entries come from the Unicode files with the id 0. An entry under a key that no
  call of the walks has is after the run what the reconciliation left, which is the
  entry from the Unicode files when there is no snapshot.
\<close>

theorem outputs_list_all_entries_sorted:
  assumes "create_font src snapshot ttf self0 = Inr r"
  shows "\<exists>es m0 m1 n.
           mset es = mset (map snd (emoji_data_map (res_self r))) \<and>
           sorted (map emoji_id es) \<and>
           json_list (res_json r) = map create_json_element es \<and>
           res_count r = int (length es) \<and>
           res_csv r = [''#id'', ''sdkAdded'', ''compatAdded'', ''codepoints''] # map create_txt_row es \<and>
           load_emoji_data_map src = Inr m0 \<and>
           (\<forall>k e. map_of m0 k = Some e \<longrightarrow> emoji_id e = 0) \<and>
           load_previous_metadata m0 snapshot = Inr (m1, n) \<and>
           (snapshot = None \<longrightarrow> m1 = m0) \<and>
           (\<forall>k. (\<forall>(cps, g) \<in> set (walk_calls ttf). codepoint_to_string cps \<noteq> k) \<longrightarrow>
                map_of (emoji_data_map (res_self r)) k = map_of m1 k)"
  using assms
proof (cases rule: create_font_steps)
  case (1 m0 m1 n s2)
  let ?reg = "emoji_data_map (res_self r)"
  let ?es = "sort_key emoji_id (map snd ?reg)"
  have a: "mset ?es = mset (map snd ?reg)" by simp
  have b: "sorted (map emoji_id ?es)" by (rule sorted_sort_key)
  have c: "json_list (res_json r) = map create_json_element ?es"
    using 1(5) by (simp add: write_metadata_json_eq)
  have d: "res_count r = int (length ?es)"
    using 1(6) by (simp add: write_metadata_json_eq)
  have e: "res_csv r = [''#id'', ''sdkAdded'', ''compatAdded'', ''codepoints''] # map create_txt_row ?es"
    using 1(7) by (simp add: write_metadata_csv_eq)
  have f: "\<forall>k e. map_of m0 k = Some e \<longrightarrow> emoji_id e = 0"
    by (rule load_emoji_data_map_ids [OF 1(1)])
  have g: "snapshot = None \<longrightarrow> m1 = m0"
    using 1(2) by (auto simp: load_previous_metadata_def)
  have w: "update_calls (walk_calls ttf) s2 = Inr (res_self r)"
    using rewrite_font_walked [OF 1(4)] by (simp add: walk_calls_fontRevision)
  have s2: "emoji_data_map s2 = m1" using read_cbdt_keeps [OF 1(3)] by simp
  have h: "\<forall>k. (\<forall>(cps, g) \<in> set (walk_calls ttf). codepoint_to_string cps \<noteq> k) \<longrightarrow>
                map_of ?reg k = map_of m1 k"
    using update_calls_unvisited [OF w] s2 by simp
  show ?thesis
    using a b c d e f g h 1(1,2)
    by (intro exI [of _ ?es] exI [of _ m0] exI [of _ m1] exI [of _ n]) simp
qed

theorem outputs_list_all_entries_sorted_witness:
  "\<exists>r. create_font example_sources None example_font init_creator = Inr r \<and>
     (\<exists>es m0 m1 n.
           mset es = mset (map snd (emoji_data_map (res_self r))) \<and>
           sorted (map emoji_id es) \<and>
           json_list (res_json r) = map create_json_element es \<and>
           res_count r = int (length es) \<and>
           res_csv r = [''#id'', ''sdkAdded'', ''compatAdded'', ''codepoints''] # map create_txt_row es \<and>
           load_emoji_data_map example_sources = Inr m0 \<and>
           (\<forall>k e. map_of m0 k = Some e \<longrightarrow> emoji_id e = 0) \<and>
           load_previous_metadata m0 None = Inr (m1, n) \<and>
           (None = (None :: string list list option) \<longrightarrow> m1 = m0) \<and>
           (\<forall>k. (\<forall>(cps, g) \<in> set (walk_calls example_font). codepoint_to_string cps \<noteq> k) \<longrightarrow>
                map_of (emoji_data_map (res_self r)) k = map_of m1 k))"
proof -
  have "\<exists>r. create_font example_sources None example_font init_creator = Inr r"
    by (simp add: example_sources_def example_font_def run_defs)
  then obtain r where
    r: "create_font example_sources None example_font init_creator = Inr r" ..
  from outputs_list_all_entries_sorted [OF r] r show ?thesis by blast
qed

subsection \<open>The id that reconciliation returns\<close>

lemma matched_ids_Cons:
  "matched_ids m (row # rows) =
     (case row_id_key row of
        None \<Rightarrow> matched_ids m rows
      | Some (i, k) \<Rightarrow> if map_of m k \<noteq> None then i # matched_ids m rows else matched_ids m rows)"
  by (simp add: matched_ids_def List.map_filter_simps split: option.splits)

lemma Max_insert_Max:
  fixes A B :: "int set"
  assumes "finite A" and "A \<noteq> {}" and "finite B"
  shows "Max (insert (Max A) B) = Max (A \<union> B)"
proof (cases "B = {}")
  case True
  then show ?thesis by simp
next
  case False
  then show ?thesis using assms by (simp add: Max_Un)
qed

lemma matched_ids_append:
  "matched_ids m (row # rows) = matched_ids m [row] @ matched_ids m rows"
  by (cases "row_id_key row") (simp_all add: matched_ids_def List.map_filter_simps)

lemma matched_ids_dom:
  assumes "\<forall>k. (map_of m1 k = None) = (map_of m k = None)"
  shows "matched_ids m1 rows = matched_ids m rows"
  using assms by (simp add: matched_ids_def)

lemma load_previous_row_step:
  assumes "load_previous_row row (m, n) = Inr (m', n')"
  shows "(\<forall>k. (map_of m' k = None) = (map_of m k = None)) \<and>
         n' = Max (insert n ((\<lambda>i. i + 1) ` set (matched_ids m [row])))"
  using assms
proof (cases rule: load_previous_row_cases)
  case (comment r0 rest)
  then show ?thesis by (cases rest; cases "tl rest") (auto simp: matched_ids_Cons row_id_key_def matched_ids_def List.map_filter_simps split: list.splits)
next
  case (data r0 r1 r2 r3 new_id new_sdk new_compat cps)
  have rk: "row_id_key row = Some (new_id, codepoint_to_string cps)"
    using data(1,2,3,6) by (simp add: row_id_key_def)
  show ?thesis
  proof (cases "map_of m (codepoint_to_string cps)")
    case None
    then show ?thesis using data(7) rk by (simp add: matched_ids_Cons matched_ids_def List.map_filter_simps)
  next
    case (Some e)
    then have m': "m' = AList.update (codepoint_to_string cps) (update e new_id new_sdk new_compat) m"
      and n': "n' = (if new_id \<ge> n then new_id + 1 else n)"
      using data(7) by simp_all
    have "\<forall>k. (map_of m' k = None) = (map_of m k = None)"
      using m' Some by (auto simp: update_conv')
    moreover have "matched_ids m [row] = [new_id]"
      using rk Some by (simp add: matched_ids_Cons matched_ids_def List.map_filter_simps)
    ultimately show ?thesis using n' by (auto simp: max_def)
  qed
qed

lemma load_previous_rows_next_id:
  assumes "fold_err load_previous_row rows (m, n) = Inr (m', n')"
  shows "(\<forall>k. (map_of m' k = None) = (map_of m k = None)) \<and>
         n' = Max (insert n ((\<lambda>i. i + 1) ` set (matched_ids m rows)))"
  using assms
proof (induction rows arbitrary: m n)
  case Nil
  then show ?case by (simp add: matched_ids_def List.map_filter_simps)
next
  case (Cons row rows)
  from Cons.prems obtain m1 n1 where st: "load_previous_row row (m, n) = Inr (m1, n1)"
    and rest: "fold_err load_previous_row rows (m1, n1) = Inr (m', n')"
    by (auto split: sum.splits)
  from load_previous_row_step [OF st] have
    d1: "\<forall>k. (map_of m1 k = None) = (map_of m k = None)" and
    n1: "n1 = Max (insert n ((\<lambda>i. i + 1) ` set (matched_ids m [row])))" by simp_all
  from Cons.IH [OF rest] have
    d2: "\<forall>k. (map_of m' k = None) = (map_of m1 k = None)" and
    n2: "n' = Max (insert n1 ((\<lambda>i. i + 1) ` set (matched_ids m1 rows)))" by simp_all
  have eq: "matched_ids m1 rows = matched_ids m rows" by (rule matched_ids_dom [OF d1])
  have split: "set (matched_ids m (row # rows)) = set (matched_ids m [row]) \<union> set (matched_ids m rows)"
    by (simp add: matched_ids_append [of m row rows])
  let ?A = "(\<lambda>i. i + 1) ` set (matched_ids m [row])"
  let ?B = "(\<lambda>i. i + 1) ` set (matched_ids m rows)"
  have "n' = Max (insert (Max (insert n ?A)) ?B)" using n2 n1 eq by simp
  also have "\<dots> = Max (insert n ?A \<union> ?B)"
    by (rule Max_insert_Max) simp_all
  also have "insert n ?A \<union> ?B = insert n ((\<lambda>i. i + 1) ` set (matched_ids m (row # rows)))"
    using split by auto
  finally show ?case using d1 d2 by simp
qed


lemma Max_plus_one:
  fixes S :: "int set"
  assumes "finite S" and "S \<noteq> {}"
  shows "Max ((\<lambda>i. i + 1) ` S) = Max S + 1"
  using mono_Max_commute [of "\<lambda>i. i + 1" S] assms by (simp add: mono_def)

text \<open>The definitions that running \<open>load_previous_metadata\<close> on an example unfolds.\<close>

lemmas snapshot_defs =
  load_previous_metadata_def load_previous_row_def hex_str_to_int_def py_int_def py_strip_def
  is_space_def digit_val_def codepoint_to_string_def py_hex_def lower_digit_def nat_digits.simps
  new_EmojiData_def update_def SDK_VERSION_def METADATA_VERSION_def DEFAULT_EMOJI_ID_def Let_def
  snapshot_ids_def matched_ids_def row_id_key_def List.map_filter_simps

text \<open>
  Claim C2 says that the returned id is one more than the largest id of the snapshot.
  The script looks at the id of a row only under \<open>if key in emoji_data_map\<close>: a row
  for an emoji that the Unicode files no longer have does not count. Here the only row
  of the snapshot is such a row, with the id \<open>0xF0005\<close>, and the default is returned.
\<close>

theorem unmatched_snapshot_id_is_ignored:
  "load_previous_metadata [(''0x1f600'', new_EmojiData [0x1F600] False)]
     (Some [[''#id'', ''sdkAdded'', ''compatAdded'', ''codepoints''],
            [''F0005'', ''25'', ''1'', ''1F601'']]) =
     Inr ([(''0x1f600'', new_EmojiData [0x1F600] False)], 0xF0001) \<and>
   snapshot_ids [[''#id'', ''sdkAdded'', ''compatAdded'', ''codepoints''],
                 [''F0005'', ''25'', ''1'', ''1F601'']] = [0xF0005]"
  by (simp add: snapshot_defs)

text \<open>
  Claim C2, as the script has it. Without a snapshot file, and with a snapshot none of
  whose rows has a key of the registry, the default \<open>0xF0001\<close> is returned. When rows
  have a key of the registry and the largest of their ids is \<open>0xF0000\<close> or more, one
  more than that id is returned. (Smaller ids are not covered here; see below.)
\<close>

theorem next_id_is_max_matched_plus_one:
  assumes "load_previous_metadata m snapshot = Inr (m', n)"
  shows "(snapshot = None \<longrightarrow> n = 0xF0001) \<and>
         (\<forall>rows. snapshot = Some rows \<longrightarrow>
            (matched_ids m rows = [] \<longrightarrow> n = 0xF0001) \<and>
            (matched_ids m rows \<noteq> [] \<and> 0xF0001 \<le> Max (set (matched_ids m rows)) + 1 \<longrightarrow>
               n = Max (set (matched_ids m rows)) + 1))"
proof (intro conjI allI impI)
  assume "snapshot = None"
  then show "n = 0xF0001"
    using assms by (simp add: load_previous_metadata_def DEFAULT_EMOJI_ID_def)
next
  fix rows assume s: "snapshot = Some rows"
  then have "fold_err load_previous_row rows (m, DEFAULT_EMOJI_ID) = Inr (m', n)"
    using assms by (simp add: load_previous_metadata_def)
  from load_previous_rows_next_id [OF this]
  have n: "n = Max (insert 0xF0001 ((\<lambda>i. i + 1) ` set (matched_ids m rows)))"
    by (simp add: DEFAULT_EMOJI_ID_def)
  {
    assume "matched_ids m rows = []"
    then show "n = 0xF0001" using n by simp
  }
  {
    assume a: "matched_ids m rows \<noteq> [] \<and> 0xF0001 \<le> Max (set (matched_ids m rows)) + 1"
    then have "Max ((\<lambda>i. i + 1) ` set (matched_ids m rows)) = Max (set (matched_ids m rows)) + 1"
      by (intro Max_plus_one) simp_all
    then show "n = Max (set (matched_ids m rows)) + 1"
      using n a by simp
  }
qed

theorem next_id_is_max_matched_plus_one_witness:
  "\<exists>m' n. load_previous_metadata [(''0x1f600'', new_EmojiData [0x1F600] False)]
             (Some [[''#id'', ''sdkAdded'', ''compatAdded'', ''codepoints''],
                    [''F0005'', ''19'', ''1'', ''1F600'']]) = Inr (m', n) \<and>
     matched_ids [(''0x1f600'', new_EmojiData [0x1F600] False)]
       [[''#id'', ''sdkAdded'', ''compatAdded'', ''codepoints''],
        [''F0005'', ''19'', ''1'', ''1F600'']] = [0xF0005] \<and>
     n = Max (set (matched_ids [(''0x1f600'', new_EmojiData [0x1F600] False)]
                 [[''#id'', ''sdkAdded'', ''compatAdded'', ''codepoints''],
                  [''F0005'', ''19'', ''1'', ''1F600'']])) + 1"
proof -
  let ?m = "[(''0x1f600'', new_EmojiData [0x1F600] False)]"
  let ?rows = "[[''#id'', ''sdkAdded'', ''compatAdded'', ''codepoints''],
                [''F0005'', ''19'', ''1'', ''1F600'']]"
  have "\<exists>m' n. load_previous_metadata ?m (Some ?rows) = Inr (m', n)"
    by (simp add: snapshot_defs)
  then obtain m' n where r: "load_previous_metadata ?m (Some ?rows) = Inr (m', n)" by blast
  have ids: "matched_ids ?m ?rows = [0xF0005]" by (simp add: snapshot_defs)
  then have h: "matched_ids ?m ?rows \<noteq> [] \<and> 0xF0001 \<le> Max (set (matched_ids ?m ?rows)) + 1"
    by simp
  from next_id_is_max_matched_plus_one [OF r] h have "n = Max (set (matched_ids ?m ?rows)) + 1" by blast
  then show ?thesis using r ids by blast
qed

text \<open>
  The docstring of \<open>load_previous_metadata\<close> gives an example: with 1 as the largest
  id of the file the function would return 2. The script starts from the default and
  only goes up, so it returns the default.
\<close>

lemma docstring_example_returns_default:
  "load_previous_metadata [(''0x1f600'', new_EmojiData [0x1F600] False)]
     (Some [[''1'', ''25'', ''1'', ''1F600'']]) =
     Inr ([(''0x1f600'', (new_EmojiData [0x1F600] False)\<lparr> emoji_id := 1 \<rparr>)], 0xF0001)"
  by (simp add: snapshot_defs)

subsection \<open>Entries are stored under the key of their code points\<close>

lemma registry_keyed_lookup:
  assumes "registry_keyed m"
  shows "(map_of m k = Some e) = ((k, e) \<in> set m)"
    and "(k, e) \<in> set m \<Longrightarrow> k = codepoint_to_string (codepoints e)"
  using assms by (auto simp: registry_keyed_def list_all_iff)

lemma set_update_subset: "set (AList.update k v m) \<subseteq> insert (k, v) (set m)"
  by (induction m) auto

lemma registry_keyed_update:
  assumes "registry_keyed m" and "k = codepoint_to_string (codepoints e)"
  shows "registry_keyed (AList.update k e m)"
proof -
  have "distinct (map fst (AList.update k e m))"
    using assms(1) by (simp add: registry_keyed_def distinct_update)
  moreover have "\<forall>(k', e') \<in> set (AList.update k e m). k' = codepoint_to_string (codepoints e')"
    using set_update_subset [of k e m] assms by (auto simp: registry_keyed_def list_all_iff)
  ultimately show ?thesis by (simp add: registry_keyed_def list_all_iff)
qed

lemma interval_codepoint_keyed:
  assumes "registry_keyed m"
  shows "registry_keyed (interval_codepoint style cp m)"
proof (cases "map_of m (codepoint_to_string [cp])")
  case None
  then show ?thesis
    using assms by (simp add: interval_codepoint_def Let_def registry_keyed_update new_EmojiData_def)
next
  case (Some e)
  then have "codepoint_to_string [cp] = codepoint_to_string (codepoints e)"
    using registry_keyed_lookup [OF assms] by blast
  then show ?thesis
    using assms Some by (simp add: interval_codepoint_def Let_def registry_keyed_update)
qed

lemma intervals_keyed:
  assumes "read_emoji_intervals m file = Inr m'" and "registry_keyed m"
  shows "registry_keyed m'"
  using assms unfolding read_emoji_intervals_def
proof (rule fold_err_invariant)
  fix x a b
  assume a: "registry_keyed a" and st: "read_emoji_intervals_line x a = Inr b"
  from st obtain cps style where "b = fold (interval_codepoint style) cps a"
    by (auto simp: read_emoji_intervals_line_def split: sum.splits)
  then show "registry_keyed b"
    using fold_invariant [of registry_keyed a cps "interval_codepoint style"] a
      interval_codepoint_keyed by blast
qed

lemma sequences_keyed:
  assumes "read_emoji_sequences m file = Inr m'" and "registry_keyed m"
  shows "registry_keyed m'"
  using assms unfolding read_emoji_sequences_def
proof (rule fold_err_invariant)
  fix x a b
  assume a: "registry_keyed a" and st: "read_emoji_sequences_line x a = Inr b"
  from sequences_line_cases [OF st] show "registry_keyed b"
    using a by (auto simp: Let_def registry_keyed_update new_EmojiData_def)
qed

lemma load_emoji_data_map_keyed:
  assumes "load_emoji_data_map src = Inr m"
  shows "registry_keyed m"
proof -
  from assms obtain m1 m2 m3 where
    m1: "read_emoji_intervals [] (EMOJI_DATA_FILE src) = Inr m1" and
    m2: "read_emoji_sequences m1 (EMOJI_ZWJ_FILE src) = Inr m2" and
    m3: "read_emoji_sequences m2 (EMOJI_SEQ_FILE src) = Inr m3" and
    m4: "m = m3 \<or> (\<exists>file. read_emoji_sequences m3 file = Inr m)"
    by (auto simp: load_emoji_data_map_def split: sum.splits option.splits)
  have "registry_keyed m1" by (rule intervals_keyed [OF m1]) (simp add: registry_keyed_def)
  then have "registry_keyed m3" using sequences_keyed [OF m2] sequences_keyed [OF m3] by blast
  then show ?thesis using m4 sequences_keyed by blast
qed

lemma load_previous_row_keyed:
  assumes "load_previous_row row (m, n) = Inr (m', n')" and "registry_keyed m"
  shows "registry_keyed m'"
  using assms(1)
proof (cases rule: load_previous_row_cases)
  case (comment r0 rest)
  then show ?thesis using assms(2) by simp
next
  case (data r0 r1 r2 r3 new_id new_sdk new_compat cps)
  show ?thesis
  proof (cases "map_of m (codepoint_to_string cps)")
    case None
    then show ?thesis using data(7) assms(2) by simp
  next
    case (Some e)
    then have "codepoint_to_string cps = codepoint_to_string (codepoints e)"
      using registry_keyed_lookup [OF assms(2)] by blast
    then show ?thesis
      using data(7) Some assms(2) by (simp add: registry_keyed_update update_def)
  qed
qed

lemma load_previous_metadata_keyed:
  assumes "load_previous_metadata m snapshot = Inr (m', n)" and "registry_keyed m"
  shows "registry_keyed m'"
proof (cases snapshot)
  case None
  then show ?thesis using assms by (simp add: load_previous_metadata_def)
next
  case (Some rows)
  then have f: "fold_err load_previous_row rows (m, DEFAULT_EMOJI_ID) = Inr (m', n)"
    using assms(1) by (simp add: load_previous_metadata_def)
  have "registry_keyed (fst (m', n))"
    using f
  proof (rule fold_err_invariant)
    show "registry_keyed (fst (m, DEFAULT_EMOJI_ID))" using assms(2) by simp
  next
    fix x a b
    assume "registry_keyed (fst a)" "load_previous_row x a = Inr b"
    then show "registry_keyed (fst b)"
      using load_previous_row_keyed [of x "fst a" "snd a" "fst b" "snd b"] by simp
  qed
  then show ?thesis by simp
qed

lemma update_emoji_data_keyed:
  assumes "update_emoji_data cps g s = Inr s'" and "registry_keyed (emoji_data_map s)"
  shows "registry_keyed (emoji_data_map s')"
  using assms(1)
proof (cases rule: update_emoji_data_cases)
  case absent
  then show ?thesis using assms(2) by simp
next
  case (present e m)
  have "codepoint_to_string cps = codepoint_to_string (codepoints e)"
    using registry_keyed_lookup [OF assms(2)] present(1) by blast
  then show ?thesis using present(3) assms(2) by (simp add: registry_keyed_update)
qed

lemma update_calls_keyed:
  assumes "update_calls calls s = Inr s'" and "registry_keyed (emoji_data_map s)"
  shows "registry_keyed (emoji_data_map s')"
  using assms unfolding update_calls_def
  by (rule fold_err_invariant) (auto dest: update_emoji_data_keyed)

lemma create_font_keyed:
  assumes "create_font src snapshot ttf self0 = Inr r"
  shows "registry_keyed (emoji_data_map (res_self r))"
  using assms
proof (cases rule: create_font_steps)
  case (1 m0 m1 n s2)
  have "registry_keyed m1"
    using load_previous_metadata_keyed [OF 1(2)] load_emoji_data_map_keyed [OF 1(1)] by simp
  then have "registry_keyed (emoji_data_map s2)" using read_cbdt_keeps [OF 1(3)] by simp
  then show ?thesis
    using rewrite_font_walked [OF 1(4)] update_calls_keyed by blast
qed

subsection \<open>The snapshot read back\<close>

lemma load_previous_row_written:
  "load_previous_row (create_txt_row old) (m, n) =
     (case map_of m (codepoint_to_string (codepoints old)) of
        None \<Rightarrow> Inr (m, n)
      | Some e \<Rightarrow>
          Inr (AList.update (codepoint_to_string (codepoints old))
                 (update e (emoji_id old) (sdk_added old) (compat_added old)) m,
               if emoji_id old \<ge> n then emoji_id old + 1 else n))"
proof -
  have cps: "map_err hex_str_to_int (map to_hex (codepoints old)) = Inr (codepoints old)"
    by (rule map_err_map) (rule hex_str_to_int_to_hex)
  have nc: "take (Suc 0) (to_hex (emoji_id old)) \<noteq> ''#''"
    using to_hex_not_comment [of "emoji_id old"] by simp
  show ?thesis
    by (simp add: load_previous_row_def create_txt_row_def nc
        hex_str_to_int_to_hex py_int_py_str cps Let_def update_def split: option.splits)
qed

lemma load_previous_rows_written:
  assumes "distinct (map (\<lambda>old. codepoint_to_string (codepoints old)) es)"
  shows "\<exists>m' n'. fold_err load_previous_row (map create_txt_row es) (m, n) = Inr (m', n') \<and>
           (\<forall>k. map_of m' k =
              (case map_of m k of
                 None \<Rightarrow> None
               | Some e \<Rightarrow>
                   (case find (\<lambda>old. codepoint_to_string (codepoints old) = k) es of
                      None \<Rightarrow> Some e
                    | Some old \<Rightarrow>
                        Some (update e (emoji_id old) (sdk_added old) (compat_added old)))))"
  using assms
proof (induction es arbitrary: m n)
  case Nil
  then show ?case by (auto split: option.splits)
next
  case (Cons old es)
  let ?ko = "codepoint_to_string (codepoints old)"
  obtain m1 n1 where st: "load_previous_row (create_txt_row old) (m, n) = Inr (m1, n1)"
    and m1: "m1 = (case map_of m ?ko of None \<Rightarrow> m
                   | Some e \<Rightarrow> AList.update ?ko
                       (update e (emoji_id old) (sdk_added old) (compat_added old)) m)"
    by (cases "map_of m ?ko") (simp_all add: load_previous_row_written)
  have d: "distinct (map (\<lambda>old. codepoint_to_string (codepoints old)) es)"
    and fresh: "\<forall>x \<in> set es. codepoint_to_string (codepoints x) \<noteq> ?ko"
    using Cons.prems by (auto simp: image_iff)
  from Cons.IH [OF d, of m1 n1] obtain m' n' where
    f: "fold_err load_previous_row (map create_txt_row es) (m1, n1) = Inr (m', n')" and
    c: "\<forall>k. map_of m' k =
              (case map_of m1 k of
                 None \<Rightarrow> None
               | Some e \<Rightarrow>
                   (case find (\<lambda>old. codepoint_to_string (codepoints old) = k) es of
                      None \<Rightarrow> Some e
                    | Some old \<Rightarrow>
                        Some (update e (emoji_id old) (sdk_added old) (compat_added old))))"
    by blast
  have nf: "find (\<lambda>x. codepoint_to_string (codepoints x) = ?ko) es = None"
    using fresh by (simp add: find_None_iff)
  have "fold_err load_previous_row (map create_txt_row (old # es)) (m, n) = Inr (m', n')"
    using st f by simp
  moreover have "map_of m' k =
              (case map_of m k of
                 None \<Rightarrow> None
               | Some e \<Rightarrow>
                   (case find (\<lambda>x. codepoint_to_string (codepoints x) = k) (old # es) of
                      None \<Rightarrow> Some e
                    | Some x \<Rightarrow>
                        Some (update e (emoji_id x) (sdk_added x) (compat_added x))))" for k
  proof (cases "k = ?ko")
    case True
    show ?thesis
    proof (cases "map_of m ?ko")
      case None
      then show ?thesis using True c m1 by simp
    next
      case (Some e)
      have fo: "find (\<lambda>x. codepoint_to_string (codepoints x) = ?ko) (old # es) = Some old"
        by simp
      show ?thesis unfolding True fo using Some c m1 nf by (simp add: update_conv')
    qed
  next
    case False
    then have "map_of m1 k = map_of m k"
      using m1 by (cases "map_of m ?ko") (simp_all add: update_conv')
    moreover have fk: "find (\<lambda>x. codepoint_to_string (codepoints x) = k) (old # es) =
        find (\<lambda>x. codepoint_to_string (codepoints x) = k) es"
      using False by auto
    ultimately show ?thesis unfolding fk using c by simp
  qed
  ultimately show ?case by blast
qed

lemma find_entry_of_registry:
  assumes "registry_keyed reg" and "set es = set (map snd reg)"
  shows "find (\<lambda>old. codepoint_to_string (codepoints old) = k) es = map_of reg k"
proof (cases "map_of reg k")
  case None
  have "\<not> (\<exists>x \<in> set es. codepoint_to_string (codepoints x) = k)"
  proof
    assume "\<exists>x \<in> set es. codepoint_to_string (codepoints x) = k"
    then obtain x where x: "x \<in> set es" "codepoint_to_string (codepoints x) = k" by blast
    then obtain k' where "(k', x) \<in> set reg" using assms(2) by auto
    then have "(k, x) \<in> set reg" using registry_keyed_lookup(2) [OF assms(1)] x(2) by blast
    then have "map_of reg k = Some x" using registry_keyed_lookup(1) [OF assms(1)] by blast
    then show False using None by simp
  qed
  then show ?thesis using None by (simp add: find_None_iff)
next
  case (Some old)
  then have m: "(k, old) \<in> set reg" using registry_keyed_lookup(1) [OF assms(1)] by simp
  then have "old \<in> set es" "codepoint_to_string (codepoints old) = k"
    using assms(2) registry_keyed_lookup(2) [OF assms(1)] by force+
  then obtain x where f: "find (\<lambda>old. codepoint_to_string (codepoints old) = k) es = Some x"
    by (cases "find (\<lambda>old. codepoint_to_string (codepoints old) = k) es")
       (auto simp: find_None_iff)
  then have x: "x \<in> set es" "codepoint_to_string (codepoints x) = k"
    by (auto simp: find_Some_iff)
  then obtain k' where "(k', x) \<in> set reg" using assms(2) by auto
  then have "(k, x) \<in> set reg"
    using registry_keyed_lookup(2) [OF assms(1)] x(2) by blast
  then have "map_of reg k = Some x" using registry_keyed_lookup(1) [OF assms(1)] by simp
  then show ?thesis using Some f by simp
qed

lemma sorted_entries_distinct_keys:
  assumes "registry_keyed reg"
  shows "distinct (map (\<lambda>old. codepoint_to_string (codepoints old))
           (sort_key emoji_id (map snd reg)))"
proof -
  have eq: "map (\<lambda>old. codepoint_to_string (codepoints old)) (map snd reg) = map fst reg"
    using assms by (auto simp: registry_keyed_def list_all_iff)
  have d: "distinct (map (\<lambda>old. codepoint_to_string (codepoints old)) (map snd reg))"
    unfolding eq using assms by (simp add: registry_keyed_def)
  have "mset (map (\<lambda>old. codepoint_to_string (codepoints old)) (sort_key emoji_id (map snd reg))) =
        mset (map (\<lambda>old. codepoint_to_string (codepoints old)) (map snd reg))"
    by (simp only: mset_map mset_sort)
  from mset_eq_imp_distinct_iff [OF this] d show ?thesis by simp
qed


lemma load_previous_metadata_dom:
  assumes "load_previous_metadata m snapshot = Inr (m', n)"
  shows "(map_of m' k = None) = (map_of m k = None)"
proof (cases snapshot)
  case None
  then show ?thesis using assms by (simp add: load_previous_metadata_def)
next
  case (Some rows)
  then have "fold_err load_previous_row rows (m, DEFAULT_EMOJI_ID) = Inr (m', n)"
    using assms by (simp add: load_previous_metadata_def)
  from load_previous_rows_next_id [OF this] show ?thesis by blast
qed

lemma create_font_dom:
  assumes "create_font src snapshot ttf self0 = Inr r" and "load_emoji_data_map src = Inr m0"
  shows "(map_of (emoji_data_map (res_self r)) k = None) = (map_of m0 k = None)"
  using assms(1)
proof (cases rule: create_font_steps)
  case (1 m0' m1 n s2)
  have m0: "m0' = m0" using 1(1) assms(2) by simp
  have a: "(map_of m1 k = None) = (map_of m0 k = None)"
    using load_previous_metadata_dom [OF 1(2)] m0 by simp
  have s2: "emoji_data_map s2 = m1" using read_cbdt_keeps [OF 1(3)] by simp
  have w: "update_calls (walk_calls (ttf\<lparr> fontRevision := METADATA_VERSION \<rparr>)) s2 = Inr (res_self r)"
    using rewrite_font_walked [OF 1(4)] by simp
  have "(map_of (emoji_data_map (res_self r)) k = None) = (map_of (emoji_data_map s2) k = None)"
    using update_calls_entry [OF w, of k] by (cases "map_of (emoji_data_map s2) k") auto
  then show ?thesis using a s2 by simp
qed

text \<open>
  Claim C5. Take the snapshot that a run of \<open>create_font\<close> has written and a registry
  read from Unicode files, all its ids 0. \<open>load_previous_metadata\<close> reads the snapshot
  without raising. Afterwards an entry of the new registry whose key is in the registry
  of the run has the id, \<open>sdk_added\<close> and \<open>compat_added\<close> of the run's entry and is
  otherwise unchanged; an entry whose key is not there is unchanged, so its id is 0; no
  key is added. With the same Unicode files both registries have the same keys.
\<close>

theorem snapshot_round_trip:
  assumes "create_font src snapshot ttf self0 = Inr r"
    and "load_emoji_data_map src' = Inr fresh"
  shows "\<exists>fresh' n.
           load_previous_metadata fresh (Some (res_csv r)) = Inr (fresh', n) \<and>
           (\<forall>k. map_of fresh' k =
              (case map_of fresh k of
                 None \<Rightarrow> None
               | Some e \<Rightarrow>
                   (case map_of (emoji_data_map (res_self r)) k of
                      None \<Rightarrow> Some e
                    | Some old \<Rightarrow>
                        Some (e\<lparr> emoji_id := emoji_id old, sdk_added := sdk_added old,
                                compat_added := compat_added old \<rparr>)))) \<and>
           (\<forall>k e. map_of fresh k = Some e \<longrightarrow> emoji_id e = 0) \<and>
           (src' = src \<longrightarrow>
              (\<forall>k. (map_of fresh k = None) = (map_of (emoji_data_map (res_self r)) k = None)))"
proof -
  let ?reg = "emoji_data_map (res_self r)"
  let ?es = "sort_key emoji_id (map snd ?reg)"
  have keyed: "registry_keyed ?reg" by (rule create_font_keyed [OF assms(1)])
  have csv: "res_csv r = [''#id'', ''sdkAdded'', ''compatAdded'', ''codepoints''] # map create_txt_row ?es"
    using assms(1) by (cases rule: create_font_steps) (simp add: write_metadata_csv_eq)
  have header: "load_previous_row [''#id'', ''sdkAdded'', ''compatAdded'', ''codepoints'']
                  (fresh, DEFAULT_EMOJI_ID) = Inr (fresh, DEFAULT_EMOJI_ID)"
    by (simp add: load_previous_row_def)
  from load_previous_rows_written [OF sorted_entries_distinct_keys [OF keyed], of fresh DEFAULT_EMOJI_ID]
  obtain fresh' n where
    f: "fold_err load_previous_row (map create_txt_row ?es) (fresh, DEFAULT_EMOJI_ID) = Inr (fresh', n)"
    and c: "\<forall>k. map_of fresh' k =
              (case map_of fresh k of
                 None \<Rightarrow> None
               | Some e \<Rightarrow>
                   (case find (\<lambda>old. codepoint_to_string (codepoints old) = k) ?es of
                      None \<Rightarrow> Some e
                    | Some old \<Rightarrow>
                        Some (update e (emoji_id old) (sdk_added old) (compat_added old))))"
    by blast
  have fnd: "find (\<lambda>old. codepoint_to_string (codepoints old) = k) ?es = map_of ?reg k" for k
    by (rule find_entry_of_registry [OF keyed]) simp
  have l: "load_previous_metadata fresh (Some (res_csv r)) = Inr (fresh', n)"
    using csv header f by (simp add: load_previous_metadata_def)
  have c': "\<forall>k. map_of fresh' k =
              (case map_of fresh k of
                 None \<Rightarrow> None
               | Some e \<Rightarrow>
                   (case map_of ?reg k of
                      None \<Rightarrow> Some e
                    | Some old \<Rightarrow>
                        Some (e\<lparr> emoji_id := emoji_id old, sdk_added := sdk_added old,
                                compat_added := compat_added old \<rparr>)))"
    using c unfolding fnd update_def .
  have ids: "\<forall>k e. map_of fresh k = Some e \<longrightarrow> emoji_id e = 0"
    by (rule load_emoji_data_map_ids [OF assms(2)])
  have same: "src' = src \<longrightarrow> (\<forall>k. (map_of fresh k = None) = (map_of ?reg k = None))"
    using create_font_dom [OF assms(1)] assms(2) by auto
  show ?thesis using l c' ids same by blast
qed

theorem snapshot_round_trip_witness:
  "\<exists>r fresh. create_font example_sources (Some example_snapshot) example_font init_creator = Inr r \<and>
     load_emoji_data_map example_sources = Inr fresh \<and>
     res_csv r = [[''#id'', ''sdkAdded'', ''compatAdded'', ''codepoints''],
                  [''F0001'', ''19'', ''1'', ''1F601''],
                  [''F0002'', ''25'', ''1'', ''1F600'']] \<and>
     (\<exists>fresh' n.
           load_previous_metadata fresh (Some (res_csv r)) = Inr (fresh', n) \<and>
           (\<forall>k. map_of fresh' k =
              (case map_of fresh k of
                 None \<Rightarrow> None
               | Some e \<Rightarrow>
                   (case map_of (emoji_data_map (res_self r)) k of
                      None \<Rightarrow> Some e
                    | Some old \<Rightarrow>
                        Some (e\<lparr> emoji_id := emoji_id old, sdk_added := sdk_added old,
                                compat_added := compat_added old \<rparr>)))) \<and>
           (\<forall>k e. map_of fresh k = Some e \<longrightarrow> emoji_id e = 0) \<and>
           (example_sources = example_sources \<longrightarrow>
              (\<forall>k. (map_of fresh k = None) = (map_of (emoji_data_map (res_self r)) k = None))))"
proof -
  have "\<exists>r. create_font example_sources (Some example_snapshot) example_font init_creator = Inr r \<and>
     res_csv r = [[''#id'', ''sdkAdded'', ''compatAdded'', ''codepoints''],
                  [''F0001'', ''19'', ''1'', ''1F601''],
                  [''F0002'', ''25'', ''1'', ''1F600'']]"
    by (simp add: example_sources_def example_snapshot_def example_font_def run_defs)
  then obtain r where
    r: "create_font example_sources (Some example_snapshot) example_font init_creator = Inr r"
    and csv: "res_csv r = [[''#id'', ''sdkAdded'', ''compatAdded'', ''codepoints''],
                  [''F0001'', ''19'', ''1'', ''1F601''],
                  [''F0002'', ''25'', ''1'', ''1F600'']]" by blast
  have "\<exists>fresh. load_emoji_data_map example_sources = Inr fresh"
    by (simp add: example_sources_def run_defs)
  then obtain fresh where f: "load_emoji_data_map example_sources = Inr fresh" ..
  from snapshot_round_trip [OF r f] r f csv show ?thesis by blast
qed

subsection \<open>A font of the wrong shape aborts the run\<close>

lemma rewrite_font_steps:
  assumes "rewrite_font ttf s = Inr (s', ttf')"
  obtains tables i s1 ttf1 ttf2 where
    "cmap_tables ttf = Some tables" and "i < length tables" and
    "find is_cmap12 tables = Some (tables ! i)" and
    "read_and_clear_gsub ttf1 (side_table (cmap (tables ! i)) []) s1 = Inr (s', ttf2)" and
    "GSUB ttf1 = GSUB ttf"
proof -
  from assms obtain s1 g2c ttf1 i ttf2 where
    c: "read_and_clear_cmap12 ttf [] s = Inr (s1, g2c, ttf1, i)" and
    g: "read_and_clear_gsub ttf1 g2c s1 = Inr (s', ttf2)"
    by (auto simp: rewrite_font_def split: sum.splits prod.splits)
  from c obtain tables tables1 where tabs: "cmap_tables ttf = Some tables"
    and ct: "read_and_clear_cmap12_tables tables [] s = Inr (s1, g2c, tables1, i)"
    and ttf1: "ttf1 = ttf\<lparr> cmap_tables := Some tables1 \<rparr>"
    by (auto simp: read_and_clear_cmap12_def split: option.splits sum.splits)
  from cmap12_tables_walked [OF ct] have
    "i < length tables" "find is_cmap12 tables = Some (tables ! i)"
    "g2c = side_table (cmap (tables ! i)) []" by simp_all
  then show ?thesis using that tabs g ttf1 by simp
qed

text \<open>
  Claim C8. A font with no \<open>cmap\<close> table at all makes \<open>read_and_clear_cmap12\<close> raise
  \<open>KeyError\<close>. A font with \<open>cmap\<close> subtables makes it raise its own
  \<open>ValueError\<close> exactly when none of them has format 12, platform 3 and encoding 10:
  with such a subtable the step may still raise (a glyph without metrics), but not for
  the missing subtable. And a font without such a subtable aborts the run:
  \<open>create_font\<close> returns an error, which is this \<open>ValueError\<close> when the steps before
  the walk (the Unicode files, the snapshot, \<open>CBDT\<close>) have gone through.
\<close>

theorem cmap12_absent_is_fatal:
  "(cmap_tables ttf = None \<longrightarrow> read_and_clear_cmap12 ttf g2c self = Inl (KeyError ''cmap'')) \<and>
   (\<forall>tables. cmap_tables ttf = Some tables \<longrightarrow>
      (read_and_clear_cmap12 ttf g2c self = Inl ValueError_cmap12) =
      (\<forall>t \<in> set tables. \<not> (format t = 12 \<and> platformID t = 3 \<and> platEncID t = 10))) \<and>
   ((\<forall>tables. cmap_tables ttf = Some tables \<longrightarrow>
       (\<forall>t \<in> set tables. \<not> (format t = 12 \<and> platformID t = 3 \<and> platEncID t = 10))) \<longrightarrow>
    (\<exists>e. create_font src snapshot ttf self0 = Inl e) \<and>
    (\<forall>tables m0 m1 n s2.
       cmap_tables ttf = Some tables \<and> load_emoji_data_map src = Inr m0 \<and>
       load_previous_metadata m0 snapshot = Inr (m1, n) \<and>
       read_cbdt (ttf\<lparr> fontRevision := METADATA_VERSION \<rparr>)
         (self0\<lparr> emoji_data_map := m1, self_emoji_id := n \<rparr>) = Inr s2 \<longrightarrow>
       create_font src snapshot ttf self0 = Inl ValueError_cmap12))"
proof (intro conjI impI)
  show "cmap_tables ttf = None \<Longrightarrow> read_and_clear_cmap12 ttf g2c self = Inl (KeyError ''cmap'')"
    using read_and_clear_cmap12_error_iff [of ttf g2c self] by blast
  show "\<forall>tables. cmap_tables ttf = Some tables \<longrightarrow>
      (read_and_clear_cmap12 ttf g2c self = Inl ValueError_cmap12) =
      (\<forall>t \<in> set tables. \<not> (format t = 12 \<and> platformID t = 3 \<and> platEncID t = 10))"
    using read_and_clear_cmap12_error_iff [of ttf g2c self] by blast
next
  assume no: "\<forall>tables. cmap_tables ttf = Some tables \<longrightarrow>
       (\<forall>t \<in> set tables. \<not> (format t = 12 \<and> platformID t = 3 \<and> platEncID t = 10))"
  show "\<exists>e. create_font src snapshot ttf self0 = Inl e"
  proof (rule ccontr)
    assume "\<not> (\<exists>e. create_font src snapshot ttf self0 = Inl e)"
    then obtain r where "create_font src snapshot ttf self0 = Inr r"
      by (cases "create_font src snapshot ttf self0") auto
    then obtain s2 where
      "rewrite_font (ttf\<lparr> fontRevision := METADATA_VERSION \<rparr>) s2 = Inr (res_self r, res_ttf r)"
      by (cases rule: create_font_steps)
    from rewrite_font_walked [OF this] obtain tables i where
      "cmap_tables ttf = Some tables" "i < length tables" "is_cmap12 (tables ! i)" by auto
    then show False using no by (auto simp: is_cmap12_def)
  qed
next
  assume no: "\<forall>tables. cmap_tables ttf = Some tables \<longrightarrow>
       (\<forall>t \<in> set tables. \<not> (format t = 12 \<and> platformID t = 3 \<and> platEncID t = 10))"
  show "\<forall>tables m0 m1 n s2.
       cmap_tables ttf = Some tables \<and> load_emoji_data_map src = Inr m0 \<and>
       load_previous_metadata m0 snapshot = Inr (m1, n) \<and>
       read_cbdt (ttf\<lparr> fontRevision := METADATA_VERSION \<rparr>)
         (self0\<lparr> emoji_data_map := m1, self_emoji_id := n \<rparr>) = Inr s2 \<longrightarrow>
       create_font src snapshot ttf self0 = Inl ValueError_cmap12"
  proof (intro allI impI)
    fix tables m0 m1 n s2
    assume a: "cmap_tables ttf = Some tables \<and> load_emoji_data_map src = Inr m0 \<and>
       load_previous_metadata m0 snapshot = Inr (m1, n) \<and>
       read_cbdt (ttf\<lparr> fontRevision := METADATA_VERSION \<rparr>)
         (self0\<lparr> emoji_data_map := m1, self_emoji_id := n \<rparr>) = Inr s2"
    let ?ttf = "ttf\<lparr> fontRevision := METADATA_VERSION \<rparr>"
    have "cmap_tables ?ttf = Some tables" using a by simp
    moreover have "\<forall>t \<in> set tables. \<not> (format t = 12 \<and> platformID t = 3 \<and> platEncID t = 10)"
      using no a by blast
    ultimately have "read_and_clear_cmap12 ?ttf [] s2 = Inl ValueError_cmap12"
      using read_and_clear_cmap12_error_iff [of ?ttf "[]" s2] by blast
    then have "rewrite_font ?ttf s2 = Inl ValueError_cmap12" by (simp add: rewrite_font_def)
    then show "create_font src snapshot ttf self0 = Inl ValueError_cmap12"
      using a by (simp add: create_font_def Let_def)
  qed
qed

theorem cmap12_absent_is_fatal_witness:
  "cmap_tables example_bmp_font =
     Some [\<lparr> format = 4, platformID = 3, platEncID = 1, cmap = [(0x263A, ''smile'')] \<rparr>] \<and>
   read_and_clear_cmap12 example_bmp_font [] init_creator = Inl ValueError_cmap12 \<and>
   create_font example_sources None example_bmp_font init_creator = Inl ValueError_cmap12"
proof -
  let ?tabs = "[\<lparr> format = 4, platformID = 3, platEncID = 1, cmap = [(0x263A, ''smile'')] \<rparr>]"
  have h: "cmap_tables example_bmp_font = Some ?tabs"
    by (simp add: example_bmp_font_def)
  have n: "\<forall>t \<in> set ?tabs. \<not> (format t = 12 \<and> platformID t = 3 \<and> platEncID t = 10)"
    by simp
  have n': "\<forall>tables. cmap_tables example_bmp_font = Some tables \<longrightarrow>
       (\<forall>t \<in> set tables. \<not> (format t = 12 \<and> platformID t = 3 \<and> platEncID t = 10))"
    using h n by simp
  have "\<exists>m0. load_emoji_data_map example_sources = Inr m0"
    by (simp add: example_sources_def run_defs)
  then obtain m0 where m0: "load_emoji_data_map example_sources = Inr m0" ..
  have m1: "load_previous_metadata m0 None = Inr (m0, DEFAULT_EMOJI_ID)"
    by (simp add: load_previous_metadata_def)
  have "\<exists>s2. read_cbdt (example_bmp_font\<lparr> fontRevision := METADATA_VERSION \<rparr>)
         (init_creator\<lparr> emoji_data_map := m0, self_emoji_id := DEFAULT_EMOJI_ID \<rparr>) = Inr s2"
    by (simp add: read_cbdt_def example_bmp_font_def)
  then obtain s2 where s2: "read_cbdt (example_bmp_font\<lparr> fontRevision := METADATA_VERSION \<rparr>)
         (init_creator\<lparr> emoji_data_map := m0, self_emoji_id := DEFAULT_EMOJI_ID \<rparr>) = Inr s2" ..
  note c8 = cmap12_absent_is_fatal [of example_bmp_font "[]" init_creator example_sources None init_creator]
  from c8 h n have a: "read_and_clear_cmap12 example_bmp_font [] init_creator = Inl ValueError_cmap12"
    by blast
  from c8 n' h m0 m1 s2
  have b: "create_font example_sources None example_bmp_font init_creator = Inl ValueError_cmap12"
    by blast
  show ?thesis using h a b by simp
qed

text \<open>
  Claim C9. Let the first glyph or a component of some ligature of some subtable of
  \<open>GSUB\<close> be no key of the side table that the walk over the format 12 subtable
  builds. Then \<open>read_and_clear_gsub\<close> raises with that side table, the rewriting of
  the font raises, and the run aborts: \<open>create_font\<close> returns an error. No rule is
  skipped.
\<close>

theorem gsub_glyph_must_be_in_side_table:
  assumes "cmap_tables ttf = Some tables" and "find is_cmap12 tables = Some table"
    and "GSUB ttf = Some lookups" and "lookup \<in> set lookups"
    and "LigatureSubst ligs \<in> set lookup" and "(name, ls) \<in> set ligs" and "lig \<in> set ls"
    and "x \<in> set (name # Component lig)"
    and "map_of (side_table (cmap table) []) x = None"
  shows "(\<exists>e. read_and_clear_gsub ttf (side_table (cmap table) []) self = Inl e) \<and>
         (\<exists>e. rewrite_font ttf self = Inl e) \<and>
         (\<exists>e. create_font src snapshot ttf self0 = Inl e)"
proof (intro conjI)
  show "\<exists>e. read_and_clear_gsub ttf (side_table (cmap table) []) self = Inl e"
    by (rule read_and_clear_gsub_missing_glyph [OF assms(3-9)])
  have rw: "\<exists>e. rewrite_font ttf' s = Inl e"
    if c: "cmap_tables ttf' = Some tables" and g: "GSUB ttf' = Some lookups" for ttf' s
  proof (rule ccontr)
    assume "\<not> (\<exists>e. rewrite_font ttf' s = Inl e)"
    then obtain s' t' where "rewrite_font ttf' s = Inr (s', t')"
      by (cases "rewrite_font ttf' s") auto
    then obtain tabs i s1 ttf1 ttf2 where
      t: "cmap_tables ttf' = Some tabs" "find is_cmap12 tabs = Some (tabs ! i)" and
      r: "read_and_clear_gsub ttf1 (side_table (cmap (tabs ! i)) []) s1 = Inr (s', ttf2)" and
      gs: "GSUB ttf1 = GSUB ttf'"
      by (cases rule: rewrite_font_steps)
    have "tabs ! i = table" using t c assms(2) by simp
    then have "read_and_clear_gsub ttf1 (side_table (cmap table) []) s1 = Inr (s', ttf2)"
      using r by simp
    moreover have "GSUB ttf1 = Some lookups" using gs g by simp
    from read_and_clear_gsub_missing_glyph [OF this assms(4-9)]
    have "\<exists>e. read_and_clear_gsub ttf1 (side_table (cmap table) []) s1 = Inl e" .
    ultimately show False by simp
  qed
  show "\<exists>e. rewrite_font ttf self = Inl e" by (rule rw [OF assms(1,3)])
  show "\<exists>e. create_font src snapshot ttf self0 = Inl e"
  proof (rule ccontr)
    assume "\<not> (\<exists>e. create_font src snapshot ttf self0 = Inl e)"
    then obtain r where "create_font src snapshot ttf self0 = Inr r"
      by (cases "create_font src snapshot ttf self0") auto
    then obtain s2 where
      "rewrite_font (ttf\<lparr> fontRevision := METADATA_VERSION \<rparr>) s2 = Inr (res_self r, res_ttf r)"
      by (cases rule: create_font_steps)
    moreover have "\<exists>e. rewrite_font (ttf\<lparr> fontRevision := METADATA_VERSION \<rparr>) s2 = Inl e"
      by (rule rw) (simp_all add: assms(1,3))
    ultimately show False by simp
  qed
qed


theorem gsub_glyph_must_be_in_side_table_witness:
  "cmap_tables example_broken_font =
     Some [\<lparr> format = 12, platformID = 3, platEncID = 10, cmap = [(0x1F1E6, ''a'')] \<rparr>] \<and>
   side_table [(0x1F1E6, ''a'')] [] = [(''a'', 0x1F1E6)] \<and>
   (\<exists>e. read_and_clear_gsub example_broken_font (side_table [(0x1F1E6, ''a'')] []) init_creator = Inl e) \<and>
   (\<exists>e. rewrite_font example_broken_font init_creator = Inl e) \<and>
   (\<exists>e. create_font example_sources None example_broken_font init_creator = Inl e)"
proof -
  let ?t = "\<lparr> format = 12, platformID = 3, platEncID = 10, cmap = [(0x1F1E6, ''a'')] \<rparr>"
  let ?lig = "\<lparr> Component = [''c''], LigGlyph = ''flag1'' \<rparr>"
  have h1: "cmap_tables example_broken_font = Some [?t]"
    by (simp add: example_broken_font_def)
  have h2: "find is_cmap12 [?t] = Some ?t" by (simp add: is_cmap12_def)
  have h3: "GSUB example_broken_font = Some [[LigatureSubst [(''a'', [?lig])]]]"
    by (simp add: example_broken_font_def)
  have h4: "[LigatureSubst [(''a'', [?lig])]] \<in> set [[LigatureSubst [(''a'', [?lig])]]]" by simp
  have h5: "LigatureSubst [(''a'', [?lig])] \<in> set [LigatureSubst [(''a'', [?lig])]]" by simp
  have h6: "(''a'', [?lig]) \<in> set [(''a'', [?lig])]" by simp
  have h7: "?lig \<in> set [?lig]" by simp
  have h8: "''c'' \<in> set (''a'' # Component ?lig)" by simp
  have st: "side_table [(0x1F1E6, ''a'')] [] = [(''a'', 0x1F1E6)]" by (simp add: side_table_def)
  have h9: "map_of (side_table (cmap ?t) []) ''c'' = None" by (simp add: side_table_def)
  from gsub_glyph_must_be_in_side_table [OF h1 h2 h3 h4 h5 h6 h7 h8 h9, of init_creator example_sources None init_creator]
  have "(\<exists>e. read_and_clear_gsub example_broken_font (side_table [(0x1F1E6, ''a'')] []) init_creator = Inl e) \<and>
   (\<exists>e. rewrite_font example_broken_font init_creator = Inl e) \<and>
   (\<exists>e. create_font example_sources None example_broken_font init_creator = Inl e)"
    by simp
  then show ?thesis using h1 st by simp
qed

subsection \<open>The format 12 subtable holds the glyphs of this run\<close>















text \<open>
  The condition on the reconciled registry is needed. Here the snapshot gives both emoji
  the id \<open>0xF0001\<close> and the font has a glyph for the first one only: the subtable ends
  with the one mapping of that id to the glyph of the first emoji, and the second emoji
  carries the same id.
\<close>

lemma duplicate_snapshot_ids_share_a_mapping:
  "map_sum id (cmap_tables \<circ> res_ttf)
     (create_font example_sources
        (Some [[''F0001'', ''19'', ''1'', ''1F600''], [''F0001'', ''19'', ''1'', ''1F601'']])
        example_font init_creator) =
     Inr (Some [\<lparr> format = 12, platformID = 3, platEncID = 10, cmap = [(0xF0001, ''grin'')] \<rparr>]) \<and>
   map_sum id (map (\<lambda>(key, emoji_data). (key, emoji_id emoji_data)) \<circ> emoji_data_map \<circ> res_self)
     (create_font example_sources
        (Some [[''F0001'', ''19'', ''1'', ''1F600''], [''F0001'', ''19'', ''1'', ''1F601'']])
        example_font init_creator) =
     Inr [(''0x1f600'', 0xF0001), (''0x1f601'', 0xF0001)]"
  by (simp add: example_sources_def example_font_def run_defs)

end
